theory Spec2Isabelle
  imports Main "HOL-Library.AList"
begin

section \<open>JavaScript strings\<close>

text \<open>
  A JavaScript string is a sequence of UTF-16 code units. The model keeps the code
  units as natural numbers, so that \<open>length\<close> counts what \<open>String.length\<close> and
  \<open>padEnd\<close> count, and the whitespace that \<open>trim\<close> removes is the whitespace of the
  language. \<open>js ''abc''\<close> is the string literal \<open>"abc"\<close>.
\<close>

type_synonym jsstring = "nat list"

definition js :: "string \<Rightarrow> jsstring" where
  "js s = map of_char s"

text \<open>
  The code units that \<open>trim\<close>, \<open>trimStart\<close> and \<open>trimEnd\<close> strip: the WhiteSpace and
  LineTerminator productions of ECMAScript (TAB, LF, VT, FF, CR, SP, NBSP, U+1680,
  U+2000 to U+200A, U+2028, U+2029, U+202F, U+205F, U+3000, U+FEFF).
\<close>

definition is_ws :: "nat \<Rightarrow> bool" where
  "is_ws c = (c = 9 \<or> c = 10 \<or> c = 11 \<or> c = 12 \<or> c = 13 \<or> c = 32 \<or> c = 160 \<or>
     c = 5760 \<or> (8192 \<le> c \<and> c \<le> 8202) \<or> c = 8232 \<or> c = 8233 \<or> c = 8239 \<or>
     c = 8287 \<or> c = 12288 \<or> c = 65279)"

definition trimStart :: "jsstring \<Rightarrow> jsstring" where
  "trimStart s = dropWhile is_ws s"

definition trimEnd :: "jsstring \<Rightarrow> jsstring" where
  "trimEnd s = rev (dropWhile is_ws (rev s))"

definition trim :: "jsstring \<Rightarrow> jsstring" where
  "trim s = trimEnd (trimStart s)"

text \<open>\<open>s.padEnd(n)\<close>: pads with spaces up to \<open>n\<close> code units.\<close>

definition padEnd :: "nat \<Rightarrow> jsstring \<Rightarrow> jsstring" where
  "padEnd n s = s @ replicate (n - length s) 32"

text \<open>
  The decimal rendering of a non-negative integer, as a template literal renders a
  number. The step counters below only ever hold the integers \<open>1, 2, 3, ...\<close>.
\<close>

fun show_nat :: "nat \<Rightarrow> jsstring" where
  "show_nat n = (if n < 10 then [48 + n] else show_nat (n div 10) @ [48 + n mod 10])"

declare show_nat.simps [simp del]

text \<open>
  \<open>find_first pat s\<close> is the first occurrence of \<open>pat\<close> in \<open>s\<close>: the text before it and
  the text after it. \<open>s.includes(pat)\<close> asks whether there is one.
\<close>

fun find_first :: "jsstring \<Rightarrow> jsstring \<Rightarrow> (jsstring \<times> jsstring) option" where
  "find_first pat [] = (if pat = [] then Some ([], []) else None)"
| "find_first pat (c # r) =
     (if take (length pat) (c # r) = pat then Some ([], drop (length pat) (c # r))
      else (case find_first pat r of
              None \<Rightarrow> None
            | Some (b, a) \<Rightarrow> Some (c # b, a)))"

definition str_includes :: "jsstring \<Rightarrow> jsstring \<Rightarrow> bool" where
  "str_includes s pat = (find_first pat s \<noteq> None)"

text \<open>
  \<open>String.prototype.replace\<close> with a string pattern replaces the first occurrence
  only, and it reads the replacement as a template (GetSubstitution): \<open>$$\<close> stands
  for a dollar sign, \<open>$&\<close> for the matched text, \<open>$`\<close> for the text before the
  match and \<open>$'\<close> for the text after it. With a string pattern there are no capture
  groups, so every other \<open>$\<close> is literal. Code units: \<open>$\<close> is 36, \<open>&\<close> is 38,
  \<open>'\<close> is 39 and \<open>`\<close> is 96.
\<close>

fun getSubstitution :: "jsstring \<Rightarrow> jsstring \<Rightarrow> jsstring \<Rightarrow> jsstring \<Rightarrow> jsstring" where
  "getSubstitution matched pre post [] = []"
| "getSubstitution matched pre post [c] = [c]"
| "getSubstitution matched pre post (c # d # r) =
     (if c = 36 \<and> d = 36 then 36 # getSubstitution matched pre post r
      else if c = 36 \<and> d = 96 then pre @ getSubstitution matched pre post r
      else if c = 36 \<and> d = 38 then matched @ getSubstitution matched pre post r
      else if c = 36 \<and> d = 39 then post @ getSubstitution matched pre post r
      else c # getSubstitution matched pre post (d # r))"

definition str_replace :: "jsstring \<Rightarrow> jsstring \<Rightarrow> jsstring \<Rightarrow> jsstring" where
  "str_replace s pat repl =
     (case find_first pat s of
        None \<Rightarrow> s
      | Some (b, a) \<Rightarrow> b @ getSubstitution pat b a repl @ a)"

text \<open>\<open>xs.join(sep)\<close>.\<close>

fun join :: "jsstring \<Rightarrow> jsstring list \<Rightarrow> jsstring" where
  "join sep [] = []"
| "join sep [x] = x"
| "join sep (x # y # r) = x @ sep @ join sep (y # r)"

section \<open>Values of the program\<close>

text \<open>
  A thrown value, by what the program observes of it: whether it is an instance of
  \<open>Error\<close>, its \<open>message\<close> and \<open>stack\<close> (\<open>None\<close> is \<open>undefined\<close>), and the
  \<open>request\<close> and \<open>response\<close> properties that HTTP clients attach (\<open>None\<close> when the
  key is not in the object; the payload is opaque).
\<close>

record js_error =
  instanceofError :: bool
  message :: "jsstring option"
  stack :: "jsstring option"
  request :: "jsstring option"
  response :: "jsstring option"

text \<open>
  \<open>CommonOptions\<close> of \<open>chrome.ts\<close>, with the types it declares. \<open>None\<close> is an absent
  property. The fields \<open>zip\<close>, \<open>file\<close> and \<open>notes\<close> are named \<open>zip'\<close>, \<open>file'\<close> and \<open>notes'\<close> here. \<open>props\<close> holds the store's own
  properties (\<open>extId\<close>, \<open>clientId\<close>, ...), whose type declarations are in a package
  that is not part of the sources.
\<close>

record options =
  zip' :: "jsstring option"
  file' :: "jsstring option"
  versionFile :: "jsstring option"
  verbose :: "bool option"
  dryRun :: "bool option"
  notes' :: "jsstring option"
  target :: "jsstring option"
  props :: "jsstring \<Rightarrow> jsstring option"

datatype jsval = JUndefined | JStr jsstring | JBool bool

fun truthy :: "jsval \<Rightarrow> bool" where
  "truthy JUndefined = False"
| "truthy (JStr s) = (s \<noteq> [])"
| "truthy (JBool b) = b"

definition str_val :: "jsstring option \<Rightarrow> jsval" where
  "str_val v = (case v of None \<Rightarrow> JUndefined | Some s \<Rightarrow> JStr s)"

definition bool_val :: "bool option \<Rightarrow> jsval" where
  "bool_val v = (case v of None \<Rightarrow> JUndefined | Some b \<Rightarrow> JBool b)"

text \<open>\<open>options[key]\<close> for a key that is only known at run time.\<close>

definition get_prop :: "options \<Rightarrow> jsstring \<Rightarrow> jsval" where
  "get_prop opt key =
     (if key = js ''zip'' then str_val (zip' opt)
      else if key = js ''file'' then str_val (file' opt)
      else if key = js ''versionFile'' then str_val (versionFile opt)
      else if key = js ''verbose'' then bool_val (verbose opt)
      else if key = js ''dryRun'' then bool_val (dryRun opt)
      else if key = js ''notes'' then str_val (notes' opt)
      else if key = js ''target'' then str_val (target opt)
      else str_val (props opt key))"

text \<open>\<open>a || b\<close> on two optional strings.\<close>

definition or_str :: "jsstring option \<Rightarrow> jsstring option \<Rightarrow> jsstring option" where
  "or_str a b = (if truthy (str_val a) then a else b)"

text \<open>A template literal renders \<open>undefined\<close> as the word.\<close>

definition tmpl :: "jsstring option \<Rightarrow> jsstring" where
  "tmpl v = (case v of None \<Rightarrow> js ''undefined'' | Some s \<Rightarrow> s)"

text \<open>The enum \<open>BrowserName\<close>: its members are strings.\<close>

definition Chrome :: jsstring where "Chrome = js ''chrome''"
definition Firefox :: jsstring where "Firefox = js ''firefox''"
definition Opera :: jsstring where "Opera = js ''opera''"
definition Edge :: jsstring where "Edge = js ''edge''"
definition Itero :: jsstring where "Itero = js ''itero''"

definition marketNameMap :: "jsstring \<Rightarrow> jsstring option" where
  "marketNameMap m =
     (if m = Chrome then Some (js ''Chrome Web Store'')
      else if m = Edge then Some (js ''Edge Add-ons'')
      else if m = Firefox then Some (js ''Firefox Add-ons'')
      else if m = Itero then Some (js ''Itero TestBed'')
      else None)"

text \<open>The outcome of a promise, and the manifest of a bundle.\<close>

datatype settled = Fulfilled bool | Rejected js_error

record manifest =
  manifest_name :: "jsstring option"
  manifest_version :: "jsstring option"

section \<open>Effects\<close>

text \<open>
  What the run emits, in order: the lines it hands to the CI logging API
  (\<open>info\<close>, \<open>warning\<close>, \<open>debug\<close>, \<open>setFailed\<close>), the lines it prints with
  \<open>console.log\<close>, and the calls it makes to the stores' submit routines:
  \<open>ClientSubmit filePath target\<close> is \<open>client.submit\<close> of the Chrome Web Store client,
  \<open>StoreSubmit browser options\<close> is \<open>submitFirefox\<close>, \<open>submitEdge\<close> or \<open>submitItero\<close>.
\<close>

datatype event =
    Info jsstring
  | Warning jsstring
  | Debug jsstring
  | SetFailed jsstring
  | ConsoleLog jsstring
  | ClientSubmit "jsstring option" jsstring
  | StoreSubmit jsstring options

text \<open>
  The state of the process: the trace, the two module-level maps of \<open>chrome.ts\<close>,
  \<open>process.env.VERBOSE\<close>, and whether \<open>console.log\<close> has been rebound to \<open>info\<close>.
\<close>

record state =
  events :: "event list"
  verboseStepMap :: "jsstring \<Rightarrow> nat option"
  verboseLogMap :: "jsstring \<Rightarrow> bool option"
  env_VERBOSE :: "jsstring option"
  consoleLogIsInfo :: bool

text \<open>
  What the program takes from outside: the action's inputs, the file system, the JSON
  and ZIP decoders, the stores' clients, and the JavaScript engine.
  \<^item> \<open>getInput\<close> is \<open>getInput\<close> of the CI API (the empty string for an input not given);
  \<open>keysInput\<close> is what \<open>JSON.parse(getInput("keys", { required: true }))\<close> yields or
  throws; \<open>nodeEnvTest\<close> is \<open>process.env.NODE_ENV === "test"\<close>.
  \<^item> \<open>resolvePath f\<close> is \<open>resolve(cwd(), f)\<close>; \<open>existsSync\<close> is on resolved paths;
  \<open>readJson f\<close> is \<open>JSON.parse(readFileSync(f).toString())\<close>, seen through its
  \<open>version\<close> property; \<open>readManifest p\<close> reads \<open>manifest.json\<close> out of the archive at
  \<open>p\<close>.
  \<^item> \<open>errorMap\<close> is the table of required fields and reasons of the Chrome Web Store
  client package, in the order of its keys.
  \<^item> \<open>clientSubmit filePath target\<close> is how \<open>client.submit\<close> settles (\<open>None\<close>: it
  resolves); \<open>storeSubmit browser options\<close> is how the submit routine of another
  store settles.
  \<^item> \<open>errorStack m\<close> is the \<open>stack\<close> the engine gives to \<open>new Error(m)\<close>; the three
  \<open>stringify\<close> functions are \<open>JSON.stringify\<close> at its three call sites.
\<close>

record env =
  getInput :: "jsstring \<Rightarrow> jsstring"
  keysInput :: "js_error + (jsstring \<times> options) list"
  nodeEnvTest :: bool
  resolvePath :: "jsstring \<Rightarrow> jsstring"
  existsSync :: "jsstring \<Rightarrow> bool"
  readJson :: "jsstring \<Rightarrow> js_error + jsstring option"
  readManifest :: "jsstring \<Rightarrow> js_error + manifest"
  errorMap :: "(jsstring \<times> jsstring) list"
  clientSubmit :: "jsstring option \<Rightarrow> jsstring \<Rightarrow> js_error option"
  storeSubmit :: "jsstring \<Rightarrow> options \<Rightarrow> settled"
  errorStack :: "jsstring \<Rightarrow> jsstring"
  stringifyDetails :: "js_error \<Rightarrow> jsstring"
  stringifyValue :: "js_error \<Rightarrow> jsstring"
  stringifyDebug :: "jsstring \<Rightarrow> jsstring \<Rightarrow> bool \<Rightarrow> jsstring"

definition new_Error :: "env \<Rightarrow> jsstring \<Rightarrow> js_error" where
  "new_Error e m =
     \<lparr>instanceofError = True, message = Some m, stack = Some (errorStack e m),
      request = None, response = None\<rparr>"

definition emit :: "event \<Rightarrow> state \<Rightarrow> state" where
  "emit ev st = st\<lparr>events := events st @ [ev]\<rparr>"

definition console_log :: "jsstring \<Rightarrow> state \<Rightarrow> state" where
  "console_log m st = emit (if consoleLogIsInfo st then Info m else ConsoleLog m) st"

section \<open>The Chrome Web Store adapter (\<open>chrome.ts\<close>)\<close>

definition getFullPath :: "env \<Rightarrow> jsstring \<Rightarrow> jsstring" where
  "getFullPath e f = resolvePath e f"

definition getIsFileExists :: "env \<Rightarrow> jsstring \<Rightarrow> bool" where
  "getIsFileExists e f = existsSync e (getFullPath e f)"

definition getErrorMessage :: "jsstring \<Rightarrow> jsstring \<Rightarrow> jsstring" where
  "getErrorMessage mkt m = mkt @ js '': '' @ m"

text \<open>\<open>resolve\<close> throws a \<open>TypeError\<close> when its argument is \<open>undefined\<close>.\<close>

definition invalidArgType :: "env \<Rightarrow> js_error" where
  "invalidArgType e =
     new_Error e (js ''The '' @ [34] @ js ''paths[1]'' @ [34] @
       js '' argument must be of type string. Received undefined'')"

subsection \<open>The precondition validator\<close>

text \<open>
  \<open>requiredFields.some(...)\<close>: the callback throws at a key whose option is not
  truthy and returns \<open>undefined\<close> otherwise, so the scan goes through the keys in
  order until the first throw. \<open>errorMap[key]\<close> goes into a template literal.
\<close>

fun requiredFields_some ::
  "env \<Rightarrow> jsstring \<Rightarrow> options \<Rightarrow> (jsstring \<times> jsstring) list \<Rightarrow> jsstring list \<Rightarrow> js_error + unit" where
  "requiredFields_some e mkt opt em [] = Inr ()"
| "requiredFields_some e mkt opt em (key # rest) =
     (if \<not> truthy (get_prop opt key)
      then Inl (new_Error e (getErrorMessage mkt (tmpl (map_of em key))))
      else requiredFields_some e mkt opt em rest)"

definition validateOptions ::
  "env \<Rightarrow> jsstring \<Rightarrow> options \<Rightarrow> (jsstring \<times> jsstring) list \<Rightarrow> js_error + unit" where
  "validateOptions e mkt opt em =
     (case requiredFields_some e mkt opt em (map fst em) of
        Inl err \<Rightarrow> Inl err
      | Inr _ \<Rightarrow>
          if \<not> truthy (str_val (zip' opt)) \<and> \<not> truthy (str_val (file' opt))
          then Inl (new_Error e (getErrorMessage mkt (js ''No extension bundle provided'')))
          else (case or_str (zip' opt) (file' opt) of
                  None \<Rightarrow> Inl (invalidArgType e)
                | Some filePath \<Rightarrow>
                    if \<not> getIsFileExists e filePath
                    then Inl (new_Error e (getErrorMessage mkt
                           (js ''Extension bundle file doesn'' @ [39] @ js ''t exist: '' @
                            getFullPath e filePath)))
                    else Inr ()))"

subsection \<open>The bundle path resolver\<close>

definition getCorrectZip :: "env \<Rightarrow> options \<Rightarrow> js_error + jsstring" where
  "getCorrectZip e opt =
     (let zip = (case zip' opt of None \<Rightarrow> [] | Some z \<Rightarrow> z);
          file = (case file' opt of None \<Rightarrow> [] | Some f \<Rightarrow> f);
          versionFile = (case versionFile opt of None \<Rightarrow> js ''package.json'' | Some v \<Rightarrow> v);
          output = (if zip \<noteq> [] then zip else file)
      in if getIsFileExists e versionFile \<and> str_includes output (js ''{version}'')
         then (case readJson e versionFile of
                 Inl err \<Rightarrow> Inl err
               | Inr version \<Rightarrow>
                   Inr (str_replace output (js ''{version}'')
                          (case version of None \<Rightarrow> [] | Some v \<Rightarrow> v)))
         else Inr output)"

subsection \<open>Reading the manifest\<close>

definition getManifestJson :: "env \<Rightarrow> jsstring option \<Rightarrow> js_error + manifest" where
  "getManifestJson e zipPath =
     (case zipPath of
        None \<Rightarrow> Inl (invalidArgType e)
      | Some z \<Rightarrow> readManifest e (getFullPath e z))"

text \<open>
  The parameters' defaults: an \<open>extId\<close> that is \<open>undefined\<close> becomes \<open>null\<close>, and a \<open>zip\<close>
  that is \<open>undefined\<close> becomes the empty string.
\<close>

definition logSuccessfullyPublished ::
  "env \<Rightarrow> jsstring option \<Rightarrow> jsstring \<Rightarrow> jsstring option \<Rightarrow> state \<Rightarrow> (js_error + unit) \<times> state" where
  "logSuccessfullyPublished e extId mkt zipPath st =
     (case getManifestJson e (Some (case zipPath of None \<Rightarrow> [] | Some z \<Rightarrow> z)) of
        Inl err \<Rightarrow> (Inl err, st)
      | Inr m \<Rightarrow>
          (let storeName = (case marketNameMap mkt of None \<Rightarrow> mkt | Some n \<Rightarrow> n)
           in (Inr (),
               console_log
                 (js ''Successfully updated '' @ [34] @
                  (case extId of None \<Rightarrow> js ''null'' | Some i \<Rightarrow> i) @ [34] @ js '' ('' @
                  tmpl (manifest_name m) @ js '') to version '' @ tmpl (manifest_version m) @
                  js '' on '' @ storeName @ js ''!'') st)))"

subsection \<open>The verbose diagnostics logger\<close>

text \<open>
  The parameters of \<open>getVerboseMessage\<close> are properties of one object, each with a
  default for when it is \<open>undefined\<close>: \<open>"Message"\<close>, the empty prefix, the empty market.
\<close>

text \<open>\<open>verboseStepMap?.[market] ?? 0\<close>\<close>

definition step_count :: "state \<Rightarrow> jsstring \<Rightarrow> nat" where
  "step_count st mkt = (case verboseStepMap st mkt of None \<Rightarrow> 0 | Some k \<Rightarrow> k)"

definition getVerboseMessage ::
  "jsstring option \<Rightarrow> jsstring option \<Rightarrow> jsstring option \<Rightarrow> state \<Rightarrow> jsstring \<times> state" where
  "getVerboseMessage message_arg prefix_arg market_arg st =
     (let msg_in = (case message_arg of None \<Rightarrow> js ''Message'' | Some m \<Rightarrow> m);
          prefix0 = (case prefix_arg of None \<Rightarrow> [] | Some p \<Rightarrow> p);
          mkt = (case market_arg of None \<Rightarrow> [] | Some m \<Rightarrow> m);
          n = 1 + step_count st mkt;
          st' = st\<lparr>verboseStepMap := (verboseStepMap st)(mkt \<mapsto> n)\<rparr>;
          msg0 = mkt @ js '': Step '' @ show_nat n @ js '') '' @ msg_in;
          prefix1 = (if prefix0 \<noteq> js ''Error''
                     then (if prefix0 \<noteq> [] then prefix0 else js ''Info'') else prefix0);
          msg1 = (if prefix0 \<noteq> js ''Error'' then prefix1 @ js '' '' @ msg0 else msg0);
          msg2 = (if prefix1 = js ''Info'' then trim msg1
                  else if prefix1 = js ''Error'' then trimStart msg1
                  else msg1)
      in (msg2, st'))"

definition enableVerboseLogging :: "jsstring \<Rightarrow> state \<Rightarrow> state" where
  "enableVerboseLogging mkt st =
     st\<lparr>verboseLogMap := (verboseLogMap st)(mkt \<mapsto> True), env_VERBOSE := Some (js ''true'')\<rparr>"

definition getVerboseLogger :: "jsstring \<Rightarrow> jsstring \<Rightarrow> state \<Rightarrow> state" where
  "getVerboseLogger mkt m st =
     (if truthy (bool_val (verboseLogMap st mkt))
      then (case getVerboseMessage (Some m) None (Some mkt) st of
              (msg, st') \<Rightarrow> console_log msg st')
      else st)"

definition getVerboseError ::
  "js_error \<Rightarrow> jsstring \<Rightarrow> jsstring option \<Rightarrow> state \<Rightarrow> js_error \<times> state" where
  "getVerboseError err mkt itemId st =
     (case getVerboseMessage
             (Some (js ''Item '' @ [34] @ tmpl itemId @ [34] @ js '': '' @ tmpl (message err)))
             (Some (js ''Error'')) (Some mkt) st of
        (msg, st') \<Rightarrow>
          (\<lparr>instanceofError = True, message = Some msg, stack = stack err,
            request = request err, response = response err\<rparr>, st'))"

subsection \<open>Submitting to the Chrome Web Store\<close>

definition market :: jsstring where
  "market = Chrome"

definition vLog :: "jsstring \<Rightarrow> state \<Rightarrow> state" where
  "vLog = getVerboseLogger market"

text \<open>
  \<open>submit\<close> is an \<open>async\<close> function. It builds the client first; the constructor is
  taken not to throw (the validator has checked the fields it requires). It runs up to
  its \<open>await\<close> when it is called:
  \<open>submit_call\<close>, which either settles at once (a dry run) or has called
  \<open>client.submit\<close> and waits for it (\<open>Await\<close>, with the options it holds). What follows
  the \<open>await\<close> runs when the client has settled: \<open>submit_resume\<close>.
\<close>

datatype pending = Done settled | Await options

definition submit_call :: "env \<Rightarrow> options \<Rightarrow> state \<Rightarrow> pending \<times> state" where
  "submit_call e opt st =
     (let extId = props opt (js ''extId'');
          tgt = (case target opt of None \<Rightarrow> js ''default'' | Some t \<Rightarrow> t);
          st1 = vLog (js ''Updating extension with ID '' @ tmpl extId) st
      in if truthy (bool_val (dryRun opt)) then (Done (Fulfilled True), st1)
         else (Await opt, emit (ClientSubmit (zip' opt) tgt) st1))"

definition submit_catch :: "env \<Rightarrow> options \<Rightarrow> js_error \<Rightarrow> state \<Rightarrow> settled \<times> state" where
  "submit_catch e opt err st =
     (case getManifestJson e (zip' opt) of
        Inl err2 \<Rightarrow> (Rejected err2, st)
      | Inr m \<Rightarrow>
          (case getVerboseError err market
                  (Some ([34] @ tmpl (props opt (js ''extId'')) @ [34] @ js '' ('' @
                         tmpl (manifest_name m) @ js '')'')) st of
             (stackedError, st') \<Rightarrow> (Rejected stackedError, st')))"

definition submit_resume :: "env \<Rightarrow> options \<Rightarrow> state \<Rightarrow> settled \<times> state" where
  "submit_resume e opt st =
     (let tgt = (case target opt of None \<Rightarrow> js ''default'' | Some t \<Rightarrow> t)
      in case clientSubmit e (zip' opt) tgt of
           Some err \<Rightarrow> submit_catch e opt err st
         | None \<Rightarrow>
             (case logSuccessfullyPublished e (props opt (js ''extId'')) market (zip' opt) st of
                (Inl err, st') \<Rightarrow> submit_catch e opt err st'
              | (Inr _, st') \<Rightarrow> (Fulfilled True, st')))"

text \<open>
  \<open>submitChrome\<close> is \<open>async\<close> too: what it throws before it reaches \<open>submit\<close> rejects
  its promise. It returns the options as it leaves them (\<open>options.zip\<close> is assigned).
\<close>

definition submitChrome :: "env \<Rightarrow> options \<Rightarrow> state \<Rightarrow> pending \<times> options \<times> state" where
  "submitChrome e opt st =
     (case getCorrectZip e opt of
        Inl err \<Rightarrow> (Done (Rejected err), opt, st)
      | Inr z \<Rightarrow>
          (let opt1 = opt\<lparr>zip' := Some z\<rparr>;
               st1 = (if truthy (bool_val (verbose opt1)) then enableVerboseLogging market st
                      else st)
           in case validateOptions e market opt1 (errorMap e) of
                Inl err \<Rightarrow> (Done (Rejected err), opt1, st1)
              | Inr _ \<Rightarrow> (case submit_call e opt1 st1 of (p, st2) \<Rightarrow> (p, opt1, st2))))"

section \<open>The action (\<open>main.ts\<close>)\<close>

text \<open>
  The Keys Collection is a JavaScript object: its keys in the order
  \<open>Object.keys\<close> lists them, each with its options. \<open>keys[browser]\<close> is \<open>map_of\<close>, and
  an assignment to a property of \<open>keys[browser]\<close> is \<open>AList.update\<close>.
\<close>

type_synonym keys = "(jsstring \<times> options) list"

text \<open>The four signs of the log lines, as surrogate pairs.\<close>

definition sign_purple :: jsstring where "sign_purple = [55357, 57315]"
definition sign_yellow :: jsstring where "sign_yellow = [55357, 57313]"
definition sign_red :: jsstring where "sign_red = [55357, 56628]"
definition sign_green :: jsstring where "sign_green = [55357, 57314]"

definition tag :: "jsstring \<Rightarrow> jsstring" where
  "tag prefix = padEnd 9 prefix @ js '' |''"

definition getBundleFiles :: "options \<Rightarrow> jsstring option" where
  "getBundleFiles opt = or_str (zip' opt) (file' opt)"

definition hasBundleFile :: "options \<Rightarrow> bool" where
  "hasBundleFile opt = truthy (str_val (getBundleFiles opt))"

definition getDetailedErrorMessage :: "env \<Rightarrow> js_error \<Rightarrow> jsstring" where
  "getDetailedErrorMessage e error =
     (if request error \<noteq> None then stringifyDetails e error
      else if instanceofError error then tmpl (or_str (stack error) (message error))
      else stringifyValue e error)"

text \<open>
  Modelled from the spec: \<open>supportedBrowserSet\<close> is a constant of the package
  \<open>@plasmohq/bms\<close>, which is not part of the sources. The spec has the store
  identities as a fixed set in which one entry, Opera, is defined but left out of the
  active submission set.
\<close>

definition supportedBrowserSet :: "jsstring list" where
  "supportedBrowserSet = [Chrome, Firefox, Edge, Itero]"

text \<open>Reading a property of \<open>undefined\<close> throws a \<open>TypeError\<close>.\<close>

definition undefinedRead :: "env \<Rightarrow> js_error" where
  "undefinedRead e =
     new_Error e (js ''Cannot read properties of undefined (reading '' @ [39] @ js ''zip'' @
       [39] @ js '')'')"

definition or_input :: "jsstring \<Rightarrow> jsstring \<Rightarrow> jsstring" where
  "or_input a b = (if a \<noteq> [] then a else b)"

subsection \<open>Resolving the bundle source of each store\<close>

definition skip_warning :: "jsstring \<Rightarrow> event" where
  "skip_warning browser =
     Warning (tag (sign_yellow @ js '' SKIP'') @ js '' No artifact available to submit for '' @
       browser)"

definition resolve_browser ::
  "env \<Rightarrow> jsstring \<Rightarrow> bool \<Rightarrow> jsstring \<Rightarrow> jsstring \<Rightarrow> keys \<Rightarrow> state \<Rightarrow> (js_error + keys) \<times> state" where
  "resolve_browser e artifact verboseIn versionFileIn browser ks st =
     (case map_of ks browser of
        None \<Rightarrow> (Inl (undefinedRead e), st)
      | Some opt \<Rightarrow>
          (let fromInput = getInput e (browser @ js ''-file'');
               fromKeys = getBundleFiles opt;
               opt1 = (if fromInput \<noteq> [] then opt\<lparr>zip' := Some fromInput\<rparr>
                       else if truthy (str_val fromKeys) then opt\<lparr>zip' := fromKeys\<rparr>
                       else if artifact \<noteq> [] then opt\<lparr>zip' := Some artifact\<rparr>
                       else opt);
               st1 = (if fromInput \<noteq> [] then st
                      else if truthy (str_val fromKeys) then st
                      else if artifact \<noteq> [] then st
                      else emit (skip_warning browser) st);
               opt2 = (if verboseIn then opt1\<lparr>verbose := Some True\<rparr> else opt1);
               opt3 = (if versionFileIn \<noteq> [] then opt2\<lparr>versionFile := Some versionFileIn\<rparr>
                       else opt2)
           in (Inr (AList.update browser opt3 ks), st1)))"

fun resolve_loop ::
  "env \<Rightarrow> jsstring \<Rightarrow> bool \<Rightarrow> jsstring \<Rightarrow> jsstring list \<Rightarrow> keys \<Rightarrow> state \<Rightarrow> (js_error + keys) \<times> state" where
  "resolve_loop e artifact verboseIn versionFileIn [] ks st = (Inr ks, st)"
| "resolve_loop e artifact verboseIn versionFileIn (browser # rest) ks st =
     (case resolve_browser e artifact verboseIn versionFileIn browser ks st of
        (Inl err, st') \<Rightarrow> (Inl err, st')
      | (Inr ks', st') \<Rightarrow> resolve_loop e artifact verboseIn versionFileIn rest ks' st')"

text \<open>\<open>browserEntries.some((b) => hasBundleFile(keys[b]))\<close>.\<close>

fun some_hasBundleFile :: "env \<Rightarrow> keys \<Rightarrow> jsstring list \<Rightarrow> js_error + bool" where
  "some_hasBundleFile e ks [] = Inr False"
| "some_hasBundleFile e ks (b # rest) =
     (case map_of ks b of
        None \<Rightarrow> Inl (undefinedRead e)
      | Some opt \<Rightarrow> if hasBundleFile opt then Inr True else some_hasBundleFile e ks rest)"

subsection \<open>Release notes\<close>

text \<open>\<open>if (keys.edge && edgeNotes) { keys.edge.notes = edgeNotes }\<close>\<close>

definition apply_notes :: "jsstring \<Rightarrow> keys \<Rightarrow> keys" where
  "apply_notes edgeNotes ks =
     (case map_of ks Edge of
        None \<Rightarrow> ks
      | Some opt \<Rightarrow>
          if edgeNotes \<noteq> [] then AList.update Edge (opt\<lparr>notes' := Some edgeNotes\<rparr>) ks
          else ks)"

subsection \<open>Dispatching and aggregating\<close>

text \<open>
  The callback of \<open>browserEntries.map\<close>: a store with no bundle gives \<open>false\<close>, every
  other store the promise of its submit routine, called on the spot. A browser that
  no \<open>case\<close> of the \<open>switch\<close> names gives \<open>undefined\<close>.
\<close>

definition deploy_browser ::
  "env \<Rightarrow> jsstring \<Rightarrow> keys \<Rightarrow> state \<Rightarrow> (js_error + pending \<times> keys) \<times> state" where
  "deploy_browser e browser ks st =
     (case map_of ks browser of
        None \<Rightarrow> (Inl (undefinedRead e), st)
      | Some opt \<Rightarrow>
          if \<not> hasBundleFile opt then (Inr (Done (Fulfilled False), ks), st)
          else (let st1 = emit (Info (tag (sign_yellow @ js '' QUEUE'') @ js '' Prepare for '' @
                                browser @ js '' submission'')) st
                in if browser = Chrome then
                     (case submitChrome e opt st1 of
                        (p, opt', st2) \<Rightarrow> (Inr (p, AList.update browser opt' ks), st2))
                   else if browser = Firefox \<or> browser = Edge \<or> browser = Itero then
                     (Inr (Done (storeSubmit e browser opt), ks),
                      emit (StoreSubmit browser opt) st1)
                   else (Inr (Done (Fulfilled False), ks), st1)))"

fun deployPromises ::
  "env \<Rightarrow> jsstring list \<Rightarrow> keys \<Rightarrow> state \<Rightarrow> (js_error + pending list \<times> keys) \<times> state" where
  "deployPromises e [] ks st = (Inr ([], ks), st)"
| "deployPromises e (browser # rest) ks st =
     (case deploy_browser e browser ks st of
        (Inl err, st') \<Rightarrow> (Inl err, st')
      | (Inr (p, ks'), st') \<Rightarrow>
          (case deployPromises e rest ks' st' of
             (Inl err, st'') \<Rightarrow> (Inl err, st'')
           | (Inr (ps, ks''), st'') \<Rightarrow> (Inr (p # ps, ks''), st'')))"

text \<open>
  \<open>await Promise.allSettled(deployPromises)\<close>: every promise runs to its outcome,
  whatever the outcomes of the others.
\<close>

fun allSettled :: "env \<Rightarrow> pending list \<Rightarrow> state \<Rightarrow> settled list \<times> state" where
  "allSettled e [] st = ([], st)"
| "allSettled e (Done r # ps) st =
     (case allSettled e ps st of (rs, st') \<Rightarrow> (r # rs, st'))"
| "allSettled e (Await opt # ps) st =
     (case submit_resume e opt st of
        (r, st1) \<Rightarrow> (case allSettled e ps st1 of (rs, st') \<Rightarrow> (r # rs, st')))"

text \<open>The callback of \<open>results.forEach\<close>, and the loop over the results and their stores.\<close>

definition done_line :: "jsstring \<Rightarrow> event" where
  "done_line browser =
     Info (tag (sign_green @ js '' DONE'') @ js '' '' @ browser @ js '' submission successful'')"

definition report_result :: "env \<Rightarrow> settled \<Rightarrow> jsstring \<Rightarrow> state \<Rightarrow> state" where
  "report_result e result browser st =
     (case result of
        Rejected reason \<Rightarrow>
          emit (SetFailed (tag (sign_red @ js '' ERROR'') @ js '' '' @
                  getDetailedErrorMessage e reason)) st
      | Fulfilled v \<Rightarrow> if v then emit (done_line browser) st else st)"

fun report_results :: "env \<Rightarrow> settled list \<Rightarrow> jsstring list \<Rightarrow> state \<Rightarrow> state" where
  "report_results e (r # rs) (b # bs) st = report_results e rs bs (report_result e r b st)"
| "report_results e rs bs st = st"

subsection \<open>The run\<close>

text \<open>The constants that \<open>run\<close> declares from the inputs, and the candidate stores.\<close>

definition artifact_input :: "env \<Rightarrow> jsstring" where
  "artifact_input e =
     or_input (getInput e (js ''file''))
       (or_input (getInput e (js ''zip'')) (getInput e (js ''artifact'')))"

definition versionFile_input :: "env \<Rightarrow> jsstring" where
  "versionFile_input e = getInput e (js ''version-file'')"

definition edgeNotes_input :: "env \<Rightarrow> jsstring" where
  "edgeNotes_input e = or_input (getInput e (js ''notes'')) (getInput e (js ''edge-notes''))"

definition verbose_input :: "env \<Rightarrow> bool" where
  "verbose_input e = (getInput e (js ''verbose'') \<noteq> [])"

definition browserEntries :: "keys \<Rightarrow> jsstring list" where
  "browserEntries ks = filter (\<lambda>browser. browser \<in> set supportedBrowserSet) (map fst ks)"

text \<open>The state when the loop over the candidates starts, and the loop.\<close>

definition setup_state :: "env \<Rightarrow> state \<Rightarrow> state" where
  "setup_state e st0 =
     (let st1 = emit (Info (sign_purple @ js '' Plasmo Browser Platform Publish v3'')) st0
      in if verbose_input e then st1\<lparr>consoleLogIsInfo := True\<rparr> else st1)"

definition resolve_all :: "env \<Rightarrow> keys \<Rightarrow> state \<Rightarrow> (js_error + keys) \<times> state" where
  "resolve_all e ks st =
     resolve_loop e (artifact_input e) (verbose_input e) (versionFile_input e)
       (browserEntries ks) ks st"

text \<open>
  The body of the \<open>try\<close>: the value it throws, if it throws, and the state it leaves.
\<close>

definition run_try :: "env \<Rightarrow> state \<Rightarrow> js_error option \<times> state" where
  "run_try e st0 =
     (case keysInput e of
        Inl err \<Rightarrow>
          (Some err, emit (Info (sign_purple @ js '' Plasmo Browser Platform Publish v3'')) st0)
      | Inr ks0 \<Rightarrow>
          if browserEntries ks0 = []
          then (Some (new_Error e (js ''No supported browser found'')), setup_state e st0)
          else
            (case resolve_all e ks0 (setup_state e st0) of
               (Inl err, st3) \<Rightarrow> (Some err, st3)
             | (Inr ks1, st3) \<Rightarrow>
                 (case some_hasBundleFile e ks1 (browserEntries ks0) of
                    Inl err \<Rightarrow> (Some err, st3)
                  | Inr hasAtLeastOneZip \<Rightarrow>
                      if \<not> hasAtLeastOneZip
                      then (Some (new_Error e (js ''No artifact found for deployment'')), st3)
                      else
                        (let ks2 = apply_notes (edgeNotes_input e) ks1
                         in if nodeEnvTest e
                            then (None,
                                  emit (Debug (join (js '','') (browserEntries ks0)))
                                    (emit (Debug (stringifyDebug e (artifact_input e)
                                                    (versionFile_input e) (verbose_input e)))
                                       st3))
                            else
                              (case deployPromises e (browserEntries ks0) ks2 st3 of
                                 (Inl err, st4) \<Rightarrow> (Some err, st4)
                               | (Inr (ps, ks3), st4) \<Rightarrow>
                                   (case allSettled e ps st4 of
                                      (results, st5) \<Rightarrow>
                                        (None,
                                         report_results e results (browserEntries ks0)
                                           st5)))))))"

text \<open>The \<open>catch\<close>: only an instance of \<open>Error\<close> makes the run fail.\<close>

definition run_catch :: "js_error \<Rightarrow> state \<Rightarrow> state" where
  "run_catch error st =
     (if instanceofError error
      then emit (SetFailed (tag (sign_red @ js '' ERROR'') @ js '' '' @ tmpl (message error))) st
      else st)"

definition run :: "env \<Rightarrow> state \<Rightarrow> state" where
  "run e st0 =
     (case run_try e st0 of
        (Some error, st) \<Rightarrow> run_catch error st
      | (None, st) \<Rightarrow> st)"

text \<open>The state of the process when the module is loaded.\<close>

definition initial :: state where
  "initial =
     \<lparr>events = [], verboseStepMap = Map.empty, verboseLogMap = Map.empty,
      env_VERBOSE = None, consoleLogIsInfo = False\<rparr>"

text \<open>The run has failed when \<open>setFailed\<close> has been called.\<close>

fun is_SetFailed :: "event \<Rightarrow> bool" where
  "is_SetFailed (SetFailed m) = True"
| "is_SetFailed ev = False"

definition failed :: "state \<Rightarrow> bool" where
  "failed st = list_ex is_SetFailed (events st)"

text \<open>A call of a store's external submit routine.\<close>

fun is_submit_call :: "event \<Rightarrow> bool" where
  "is_submit_call (ClientSubmit f t) = True"
| "is_submit_call (StoreSubmit b opt) = True"
| "is_submit_call ev = False"

section \<open>The outcome of one store\<close>

text \<open>
  The Submission Outcome of the specification: a store has succeeded (its promise is
  fulfilled with \<open>true\<close>), has been skipped (fulfilled with a falsy value) or has failed
  (rejected).
\<close>

datatype outcome = Succeeded | Skipped | Failed

fun outcome_of :: "settled \<Rightarrow> outcome" where
  "outcome_of (Fulfilled v) = (if v then Succeeded else Skipped)"
| "outcome_of (Rejected err) = Failed"

text \<open>
  What becomes of a store when it is the only one: the callback of the \<open>map\<close> is run
  for it in a fresh process, and its promise is left to settle.
\<close>

definition submit_alone :: "env \<Rightarrow> jsstring \<Rightarrow> options \<Rightarrow> settled" where
  "submit_alone e browser opt =
     (case deploy_browser e browser [(browser, opt)] initial of
        (Inl err, st) \<Rightarrow> Rejected err
      | (Inr (Done r, ks), st) \<Rightarrow> r
      | (Inr (Await opt', ks), st) \<Rightarrow> fst (submit_resume e opt' st))"

section \<open>The priority chain, as the specification states it\<close>

text \<open>
  The bundle source of a candidate store, in the words of the specification: the
  store-specific override input if present, otherwise the store's own \<open>zip\<close> or \<open>file\<close>
  if present, otherwise the global artifact path if present; otherwise none, and the
  store is skip-eligible. The loop of \<open>run\<close> is compared with it below.
\<close>

definition spec_bundle_source :: "env \<Rightarrow> jsstring \<Rightarrow> options \<Rightarrow> jsstring option" where
  "spec_bundle_source e browser opt =
     (if getInput e (browser @ js ''-file'') \<noteq> [] then Some (getInput e (browser @ js ''-file''))
      else if truthy (str_val (getBundleFiles opt)) then getBundleFiles opt
      else if artifact_input e \<noteq> [] then Some (artifact_input e)
      else None)"

section \<open>Concrete inputs\<close>

text \<open>An environment to evaluate the program in: no inputs, an empty file system.\<close>

definition env0 :: env where
  "env0 =
     \<lparr>getInput = (\<lambda>name. []), keysInput = Inr [], nodeEnvTest = False,
      resolvePath = (\<lambda>f. js ''/work/'' @ f), existsSync = (\<lambda>p. False),
      readJson = (\<lambda>f. Inr None),
      readManifest = (\<lambda>p. Inr \<lparr>manifest_name = None, manifest_version = None\<rparr>),
      errorMap = [], clientSubmit = (\<lambda>f t. None), storeSubmit = (\<lambda>b opt. Fulfilled True),
      errorStack = (\<lambda>m. js ''Error: '' @ m), stringifyDetails = (\<lambda>err. js ''{}''),
      stringifyValue = (\<lambda>err. js ''{}''), stringifyDebug = (\<lambda>a v b. js ''{}'')\<rparr>"

definition no_options :: options where
  "no_options =
     \<lparr>zip' = None, file' = None, versionFile = None, verbose = None, dryRun = None,
      notes' = None, target = None, props = (\<lambda>key. None)\<rparr>"

text \<open>
  A version descriptor at \<open>package.json\<close> whose \<open>version\<close> is \<open>1$&\<close>, and one whose
  \<open>version\<close> is \<open>1.2.3\<close>.
\<close>

definition env_dollar :: env where
  "env_dollar =
     env0\<lparr>existsSync := (\<lambda>p. p = js ''/work/package.json''),
          readJson := (\<lambda>f. Inr (Some (js ''1$&'')))\<rparr>"

definition env_version :: env where
  "env_version =
     env0\<lparr>existsSync := (\<lambda>p. p = js ''/work/package.json''),
          readJson := (\<lambda>f. Inr (Some (js ''1.2.3'')))\<rparr>"

text \<open>
  The Chrome Web Store client's table of required fields, a bundle \<open>a.zip\<close> on disk,
  and options with more or less of what the validator asks for.
\<close>

definition env_chrome :: env where
  "env_chrome =
     env0\<lparr>errorMap := [(js ''extId'', js ''No extension ID provided''),
                       (js ''clientId'', js ''No client ID provided''),
                       (js ''refreshToken'', js ''No refresh token provided'')],
          existsSync := (\<lambda>p. p = js ''/work/a.zip'')\<rparr>"

definition credentials :: "jsstring \<Rightarrow> jsstring option" where
  "credentials key =
     (if key = js ''extId'' then Some (js ''abc'')
      else if key = js ''clientId'' then Some (js ''id'')
      else if key = js ''refreshToken'' then Some (js ''token'')
      else None)"

definition opt_missing :: options where
  "opt_missing =
     no_options\<lparr>zip' := Some (js ''a.zip''),
                 props := (\<lambda>key. if key = js ''extId'' then Some (js ''abc'') else None)\<rparr>"

definition opt_nobundle :: options where
  "opt_nobundle = no_options\<lparr>props := credentials\<rparr>"

definition opt_ok :: options where
  "opt_ok = no_options\<lparr>zip' := Some (js ''a.zip''), props := credentials\<rparr>"

definition opt_nofile :: options where
  "opt_nofile = no_options\<lparr>file' := Some (js ''b.zip''), props := credentials\<rparr>"

text \<open>A rejection of the store's client.\<close>

definition boom :: js_error where
  "boom =
     \<lparr>instanceofError = True, message = Some (js ''boom''), stack = None,
      request = None, response = None\<rparr>"

text \<open>A thrown value that is not an \<open>Error\<close>: a string, say.\<close>

definition thrown_text :: js_error where
  "thrown_text =
     \<lparr>instanceofError = False, message = None, stack = None, request = None, response = None\<rparr>"

text \<open>A Keys Collection with one store, \<open>firefox\<close>, that has no bundle of its own.\<close>

definition env_firefox :: env where
  "env_firefox = env0\<lparr>keysInput := Inr [(Firefox, no_options)]\<rparr>"

text \<open>
  The example of the specification, with one more store: \<open>chrome\<close> has its own
  \<open>zip\<close>, \<open>firefox\<close> has nothing, \<open>edge\<close> has its own \<open>file\<close> and an override input;
  \<open>safari\<close> is not a supported store; the global artifact is \<open>b.zip\<close>.
\<close>

definition keys_example :: keys where
  "keys_example =
     [(Chrome, no_options\<lparr>zip' := Some (js ''a.zip'')\<rparr>),
      (js ''safari'', no_options\<lparr>zip' := Some (js ''s.zip'')\<rparr>),
      (Firefox, no_options),
      (Edge, no_options\<lparr>file' := Some (js ''e.zip'')\<rparr>)]"

definition env_example :: env where
  "env_example =
     env0\<lparr>keysInput := Inr keys_example,
          getInput := (\<lambda>name. if name = js ''artifact'' then js ''b.zip''
                               else if name = js ''edge-file'' then js ''c.zip'' else [])\<rparr>"

text \<open>
  Three candidate stores, each with a bundle; the submit routine of the second one,
  \<open>edge\<close>, rejects.
\<close>

definition keys_settle :: keys where
  "keys_settle =
     [(Firefox, no_options\<lparr>zip' := Some (js ''a.zip'')\<rparr>),
      (Edge, no_options\<lparr>zip' := Some (js ''a.zip'')\<rparr>),
      (Itero, no_options\<lparr>zip' := Some (js ''a.zip'')\<rparr>)]"

definition env_settle :: env where
  "env_settle =
     env0\<lparr>keysInput := Inr keys_settle,
          storeSubmit := (\<lambda>b opt. if b = Edge then Rejected boom else Fulfilled True)\<rparr>"

text \<open>
  One store, \<open>chrome\<close>, with all it needs and no verbose flag; the Web Store client
  rejects the upload.
\<close>

definition env_reject :: env where
  "env_reject =
     env_chrome\<lparr>keysInput := Inr [(Chrome, opt_ok)], clientSubmit := (\<lambda>f t. Some boom)\<rparr>"

section \<open>Properties\<close>

subsection \<open>Evaluating string literals\<close>

lemma js_Nil: "js [] = []" by (simp add: js_def)
lemma js_Cons: "js (c # cs) = of_char c # js cs" by (simp add: js_def)

lemma trim_nonws: "\<not> is_ws c \<Longrightarrow> trim (c # s) = trimEnd (c # s)"
  by (simp add: trim_def trimStart_def)

subsection \<open>Updating the Keys Collection\<close>

lemma update_present_keys:
  "map_of ks k = Some v \<Longrightarrow> map fst (AList.update k w ks) = map fst ks"
  by (induction ks) (auto split: if_splits)

subsection \<open>The precondition validator\<close>

lemma requiredFields_some_find:
  "requiredFields_some e mkt opt em ks =
     (case find (\<lambda>k. \<not> truthy (get_prop opt k)) ks of
        None \<Rightarrow> Inr ()
      | Some k \<Rightarrow> Inl (new_Error e (getErrorMessage mkt (tmpl (map_of em k)))))"
  by (induction ks) simp_all

lemma find_in_keys:
  "find P (map fst em) = Some k \<Longrightarrow> \<exists>r. map_of em k = Some r"
  by (induction em) (auto split: if_splits)

lemma validate_missing:
  assumes "find (\<lambda>k. \<not> truthy (get_prop opt k)) (map fst em) = Some k"
    and "map_of em k = Some r"
  shows "validateOptions e mkt opt em = Inl (new_Error e (mkt @ js '': '' @ r))"
  using assms
  by (simp add: validateOptions_def requiredFields_some_find getErrorMessage_def tmpl_def)

lemma validate_nobundle:
  assumes "find (\<lambda>k. \<not> truthy (get_prop opt k)) (map fst em) = None"
    and "\<not> truthy (str_val (zip' opt))" and "\<not> truthy (str_val (file' opt))"
  shows "validateOptions e mkt opt em
           = Inl (new_Error e (mkt @ js '': '' @ js ''No extension bundle provided''))"
  using assms
  by (simp add: validateOptions_def requiredFields_some_find getErrorMessage_def)

lemma validate_exists:
  assumes a: "find (\<lambda>k. \<not> truthy (get_prop opt k)) (map fst em) = None"
    and b: "getBundleFiles opt = Some filePath" and c: "filePath \<noteq> []"
  shows "validateOptions e mkt opt em
           = (if existsSync e (resolvePath e filePath) then Inr ()
              else Inl (new_Error e (mkt @ js '': '' @ js ''Extension bundle file doesn'' @
                          [39] @ js ''t exist: '' @ resolvePath e filePath)))"
proof -
  from b have d: "or_str (zip' opt) (file' opt) = Some filePath"
    by (simp add: getBundleFiles_def)
  with c have f: "(\<not> truthy (str_val (zip' opt)) \<and> \<not> truthy (str_val (file' opt))) = False"
    by (auto simp add: or_str_def str_val_def split: if_splits)
  show ?thesis
    using a d
    by (simp add: validateOptions_def requiredFields_some_find getErrorMessage_def
        getIsFileExists_def getFullPath_def f)
qed

text \<open>
  C4. The validator throws at the first required field (in the order of the keys of
  the required-fields map) whose option is not truthy: one error, whose message is the
  store name, a colon and that field's reason. Only when every required field is
  truthy does it ask for a bundle path: when neither \<open>zip\<close> nor \<open>file\<close> is set it throws
  the store-qualified "No extension bundle provided". Only when a bundle path is set
  does it ask whether the file exists.
\<close>

theorem validateOptions_order:
  "(\<forall>k. find (\<lambda>k. \<not> truthy (get_prop opt k)) (map fst em) = Some k \<longrightarrow>
      (\<exists>reason. map_of em k = Some reason \<and>
         validateOptions e mkt opt em = Inl (new_Error e (mkt @ js '': '' @ reason)))) \<and>
   (find (\<lambda>k. \<not> truthy (get_prop opt k)) (map fst em) = None \<and>
      \<not> truthy (str_val (zip' opt)) \<and> \<not> truthy (str_val (file' opt)) \<longrightarrow>
      validateOptions e mkt opt em
        = Inl (new_Error e (mkt @ js '': '' @ js ''No extension bundle provided''))) \<and>
   (\<forall>filePath. find (\<lambda>k. \<not> truthy (get_prop opt k)) (map fst em) = None \<and>
      getBundleFiles opt = Some filePath \<and> filePath \<noteq> [] \<longrightarrow>
      validateOptions e mkt opt em
        = (if existsSync e (resolvePath e filePath) then Inr ()
           else Inl (new_Error e (mkt @ js '': '' @ js ''Extension bundle file doesn'' @
                       [39] @ js ''t exist: '' @ resolvePath e filePath))))"
proof (intro conjI allI impI)
  fix k
  assume f: "find (\<lambda>k. \<not> truthy (get_prop opt k)) (map fst em) = Some k"
  from find_in_keys [OF f] obtain r where r: "map_of em k = Some r" ..
  from validate_missing [OF f r] r
  show "\<exists>reason. map_of em k = Some reason \<and>
         validateOptions e mkt opt em = Inl (new_Error e (mkt @ js '': '' @ reason))"
    by simp
next
  assume a: "find (\<lambda>k. \<not> truthy (get_prop opt k)) (map fst em) = None \<and>
      \<not> truthy (str_val (zip' opt)) \<and> \<not> truthy (str_val (file' opt))"
  show "validateOptions e mkt opt em
        = Inl (new_Error e (mkt @ js '': '' @ js ''No extension bundle provided''))"
    by (rule validate_nobundle) (simp_all add: a)
next
  fix filePath
  assume a: "find (\<lambda>k. \<not> truthy (get_prop opt k)) (map fst em) = None \<and>
      getBundleFiles opt = Some filePath \<and> filePath \<noteq> []"
  show "validateOptions e mkt opt em
        = (if existsSync e (resolvePath e filePath) then Inr ()
           else Inl (new_Error e (mkt @ js '': '' @ js ''Extension bundle file doesn'' @
                       [39] @ js ''t exist: '' @ resolvePath e filePath)))"
    by (rule validate_exists) (simp_all add: a)
qed

theorem validateOptions_order_witness:
  "validateOptions env_chrome Chrome opt_missing (errorMap env_chrome)
     = Inl (new_Error env_chrome (Chrome @ js '': '' @ js ''No client ID provided'')) \<and>
   validateOptions env_chrome Chrome opt_nobundle (errorMap env_chrome)
     = Inl (new_Error env_chrome (Chrome @ js '': '' @ js ''No extension bundle provided'')) \<and>
   validateOptions env_chrome Chrome opt_ok (errorMap env_chrome) = Inr () \<and>
   validateOptions env_chrome Chrome opt_nofile (errorMap env_chrome)
     = Inl (new_Error env_chrome (Chrome @ js '': '' @ js ''Extension bundle file doesn'' @
              [39] @ js ''t exist: '' @ js ''/work/b.zip''))"
proof -
  have em: "map fst (errorMap env_chrome) = [js ''extId'', js ''clientId'', js ''refreshToken'']"
    by (simp add: env_chrome_def env0_def)
  have f1: "find (\<lambda>k. \<not> truthy (get_prop opt_missing k)) (map fst (errorMap env_chrome))
              = Some (js ''clientId'')"
    unfolding em by (simp add: get_prop_def opt_missing_def no_options_def str_val_def js_Cons js_Nil)
  have r1: "map_of (errorMap env_chrome) (js ''clientId'') = Some (js ''No client ID provided'')"
    by (simp add: env_chrome_def env0_def js_Cons js_Nil)
  have f2: "find (\<lambda>k. \<not> truthy (get_prop opt_nobundle k)) (map fst (errorMap env_chrome)) = None"
    unfolding em
    by (simp add: get_prop_def opt_nobundle_def no_options_def credentials_def str_val_def js_Cons js_Nil)
  have z2: "\<not> truthy (str_val (zip' opt_nobundle))" "\<not> truthy (str_val (file' opt_nobundle))"
    by (simp_all add: opt_nobundle_def no_options_def str_val_def)
  have f3: "find (\<lambda>k. \<not> truthy (get_prop opt_ok k)) (map fst (errorMap env_chrome)) = None"
    unfolding em
    by (simp add: get_prop_def opt_ok_def no_options_def credentials_def str_val_def js_Cons js_Nil)
  have b3: "getBundleFiles opt_ok = Some (js ''a.zip'')" "js ''a.zip'' \<noteq> []"
    by (simp_all add: getBundleFiles_def or_str_def opt_ok_def no_options_def str_val_def js_Cons)
  have x3: "existsSync env_chrome (resolvePath env_chrome (js ''a.zip''))"
    by (simp add: env_chrome_def env0_def js_Cons js_Nil)
  have f4: "find (\<lambda>k. \<not> truthy (get_prop opt_nofile k)) (map fst (errorMap env_chrome)) = None"
    unfolding em
    by (simp add: get_prop_def opt_nofile_def no_options_def credentials_def str_val_def js_Cons js_Nil)
  have b4: "getBundleFiles opt_nofile = Some (js ''b.zip'')" "js ''b.zip'' \<noteq> []"
    by (simp_all add: getBundleFiles_def or_str_def opt_nofile_def no_options_def str_val_def js_Cons)
  have x4: "\<not> existsSync env_chrome (resolvePath env_chrome (js ''b.zip''))"
    "resolvePath env_chrome (js ''b.zip'') = js ''/work/b.zip''"
    by (simp_all add: env_chrome_def env0_def js_Cons js_Nil)
  show ?thesis
    using validateOptions_order [of opt_missing "errorMap env_chrome" env_chrome Chrome]
      validateOptions_order [of opt_nobundle "errorMap env_chrome" env_chrome Chrome]
      validateOptions_order [of opt_ok "errorMap env_chrome" env_chrome Chrome]
      validateOptions_order [of opt_nofile "errorMap env_chrome" env_chrome Chrome]
      f1 r1 f2 z2 f3 b3 x3 f4 b4 x4
    by simp
qed

subsection \<open>The verbose diagnostics logger\<close>

text \<open>
  C7, as the code has it. While a store's flag is not enabled, a message logged through
  the store's verbose logger changes nothing: the step counter keeps its value and
  nothing is emitted, for every message and every store.
\<close>

theorem vLog_disabled_noop:
  "verboseLogMap st mkt \<noteq> Some True \<Longrightarrow> getVerboseLogger mkt m st = st"
  by (cases "verboseLogMap st mkt") (auto simp add: getVerboseLogger_def bool_val_def)

theorem vLog_disabled_noop_witness:
  "verboseLogMap initial Chrome \<noteq> Some True \<and>
   getVerboseLogger Chrome (js ''Updating extension'') initial = initial"
  using vLog_disabled_noop [of initial Chrome "js ''Updating extension''"]
  by (simp add: initial_def)

text \<open>
  A run in which the flag of \<open>chrome\<close> is never enabled and the client rejects: the
  flag is still not set at the end, and the step counter of \<open>chrome\<close> has gone up.
\<close>

lemma run_reject:
  "verboseLogMap (run env_reject initial) Chrome = None \<and>
   step_count (run env_reject initial) Chrome = 1"
proof -
  have be: "browserEntries [(Chrome, opt_ok)] = [Chrome]"
    by (simp add: browserEntries_def supportedBrowserSet_def)
  have k: "keysInput env_reject = Inr [(Chrome, opt_ok)]"
    by (simp add: env_reject_def env_chrome_def env0_def)
  have z: "opt_ok\<lparr>zip' := Some (js ''a.zip'')\<rparr> = opt_ok"
    by (simp add: opt_ok_def)
  have hb: "hasBundleFile opt_ok" "getBundleFiles opt_ok = Some (js ''a.zip'')"
    by (simp_all add: hasBundleFile_def getBundleFiles_def or_str_def str_val_def opt_ok_def
        no_options_def js_Cons)
  have inp: "getInput env_reject = (\<lambda>n. [])" "nodeEnvTest env_reject = False"
    by (simp_all add: env_reject_def env_chrome_def env0_def)
  have ne: "js ''a.zip'' \<noteq> []"
    by (simp add: js_Cons)
  have rs: "resolve_all env_reject [(Chrome, opt_ok)] st = (Inr [(Chrome, opt_ok)], st)" for st
    unfolding resolve_all_def be
    by (simp add: resolve_browser_def hb inp z ne Let_def artifact_input_def verbose_input_def
        versionFile_input_def or_input_def str_val_def)
  have sc: "submitChrome env_reject opt_ok st
              = (Await opt_ok, opt_ok, emit (ClientSubmit (Some (js ''a.zip'')) (js ''default'')) st)"
    if "verboseLogMap st Chrome = None" for st
    using that
    by (simp add: submitChrome_def getCorrectZip_def validateOptions_def submit_call_def Let_def
        env_reject_def env_chrome_def env0_def opt_ok_def no_options_def credentials_def
        getIsFileExists_def getFullPath_def str_includes_def or_str_def str_val_def bool_val_def
        get_prop_def vLog_def getVerboseLogger_def market_def js_Cons js_Nil)
  have sr: "verboseLogMap (snd (submit_resume env_reject opt_ok st)) Chrome = verboseLogMap st Chrome \<and>
            step_count (snd (submit_resume env_reject opt_ok st)) Chrome = 1 + step_count st Chrome" for st
    by (simp add: submit_resume_def submit_catch_def getManifestJson_def getVerboseError_def
        getVerboseMessage_def Let_def env_reject_def env_chrome_def env0_def opt_ok_def
        no_options_def market_def step_count_def)
  have st3: "verboseLogMap (setup_state env_reject initial) Chrome = None"
    "step_count (setup_state env_reject initial) Chrome = 0"
    by (simp_all add: setup_state_def initial_def emit_def Let_def step_count_def)
  have rr: "verboseLogMap (report_results e rs bs st) = verboseLogMap st \<and>
            verboseStepMap (report_results e rs bs st) = verboseStepMap st" for e rs bs st
    by (induction e rs bs st rule: report_results.induct)
       (simp_all add: report_result_def emit_def split: settled.splits)
  have ce: "Chrome \<noteq> Edge"
    by (simp add: Chrome_def Edge_def js_Cons js_Nil)
  have an: "apply_notes (edgeNotes_input env_reject) [(Chrome, opt_ok)] = [(Chrome, opt_ok)]"
    using ce by (simp add: apply_notes_def)
  let ?q = "Info (tag (sign_yellow @ js '' QUEUE'') @ js '' Prepare for '' @ Chrome @
                  js '' submission'')"
  have dp: "deployPromises env_reject [Chrome] [(Chrome, opt_ok)] st
              = (Inr ([Await opt_ok], [(Chrome, opt_ok)]),
                 emit (ClientSubmit (Some (js ''a.zip'')) (js ''default'')) (emit ?q st))"
    if "verboseLogMap st Chrome = None" for st
  proof -
    from that have "verboseLogMap (emit ?q st) Chrome = None"
      by (simp add: emit_def)
    from sc [OF this] show ?thesis
      by (simp add: deploy_browser_def hb)
  qed
  let ?s4 = "emit (ClientSubmit (Some (js ''a.zip'')) (js ''default''))
               (emit ?q (setup_state env_reject initial))"
  have s4: "verboseLogMap ?s4 Chrome = None" "step_count ?s4 Chrome = 0"
    using st3 by (simp_all add: emit_def step_count_def)
  have rt: "run_try env_reject initial
              = (None, report_results env_reject [fst (submit_resume env_reject opt_ok ?s4)] [Chrome]
                         (snd (submit_resume env_reject opt_ok ?s4)))"
    by (simp add: run_try_def k be rs hb inp an dp [OF st3(1)] Let_def split_beta
        del: deployPromises.simps)
  have "run env_reject initial
          = report_results env_reject [fst (submit_resume env_reject opt_ok ?s4)] [Chrome]
              (snd (submit_resume env_reject opt_ok ?s4))"
    by (simp add: run_def rt del: report_results.simps)
  with sr [of ?s4] s4 rr show ?thesis
    by (simp add: step_count_def del: report_results.simps)
qed

text \<open>
  C7, as it is stated, fails for the failure messages. They are not behind the flag:
  \<open>getVerboseError\<close> calls \<open>getVerboseMessage\<close> whatever the flag says. In the state of
  a fresh process, where the flag of \<open>chrome\<close> is not set, building the failure message
  takes the step counter of \<open>chrome\<close> from 0 to 1 and numbers the message "Step 1"; and
  so does the run in which the client rejects.
\<close>

theorem getVerboseError_counts_when_disabled:
  "verboseLogMap initial Chrome = None \<and>
   step_count initial Chrome = 0 \<and>
   step_count (snd (getVerboseError boom Chrome (Some (js ''abc'')) initial)) Chrome = 1 \<and>
   message (fst (getVerboseError boom Chrome (Some (js ''abc'')) initial))
     = Some (js ''chrome: Step 1) Item '' @ [34] @ js ''abc'' @ [34] @ js '': boom'') \<and>
   verboseLogMap (run env_reject initial) Chrome = None \<and>
   step_count (run env_reject initial) Chrome = 1"
proof -
  have "verboseLogMap initial Chrome = None \<and>
        step_count initial Chrome = 0 \<and>
        step_count (snd (getVerboseError boom Chrome (Some (js ''abc'')) initial)) Chrome = 1 \<and>
        message (fst (getVerboseError boom Chrome (Some (js ''abc'')) initial))
          = Some (js ''chrome: Step 1) Item '' @ [34] @ js ''abc'' @ [34] @ js '': boom'')"
    by (simp add: initial_def getVerboseError_def getVerboseMessage_def boom_def Let_def
        step_count_def tmpl_def trimStart_def Chrome_def js_Cons js_Nil is_ws_def show_nat.simps)
  with run_reject show ?thesis by simp
qed

text \<open>
  C8. A message first increments the store's step counter and carries the new count.
  With no prefix (or the prefix \<open>Info\<close>) it is \<open>Info <store>: Step <n>) <message>\<close> without
  its trailing whitespace; with the prefix \<open>Error\<close> it is \<open><store>: Step <n>) <message>\<close>,
  with no severity word before the store name, without its leading whitespace; with any
  other prefix it is \<open><prefix> <store>: Step <n>) <message>\<close>, untouched.
\<close>

theorem getVerboseMessage_form:
  "snd (getVerboseMessage (Some m) p (Some mkt) st)
     = st\<lparr>verboseStepMap := (verboseStepMap st)(mkt \<mapsto> 1 + step_count st mkt)\<rparr> \<and>
   (p = None \<or> p = Some [] \<or> p = Some (js ''Info'') \<longrightarrow>
      fst (getVerboseMessage (Some m) p (Some mkt) st)
        = trimEnd (js ''Info'' @ js '' '' @ mkt @ js '': Step '' @
                   show_nat (1 + step_count st mkt) @ js '') '' @ m)) \<and>
   (p = Some (js ''Error'') \<longrightarrow>
      fst (getVerboseMessage (Some m) p (Some mkt) st)
        = trimStart (mkt @ js '': Step '' @ show_nat (1 + step_count st mkt) @ js '') '' @ m)) \<and>
   (\<forall>q. p = Some q \<and> q \<noteq> [] \<and> q \<noteq> js ''Info'' \<and> q \<noteq> js ''Error'' \<longrightarrow>
      fst (getVerboseMessage (Some m) p (Some mkt) st)
        = q @ js '' '' @ mkt @ js '': Step '' @ show_nat (1 + step_count st mkt) @ js '') '' @ m)"
proof (intro conjI impI allI)
  show "snd (getVerboseMessage (Some m) p (Some mkt) st)
     = st\<lparr>verboseStepMap := (verboseStepMap st)(mkt \<mapsto> 1 + step_count st mkt)\<rparr>"
    by (simp add: getVerboseMessage_def Let_def)
next
  have ne: "js ''Info'' \<noteq> js ''Error''" "js ''Info'' \<noteq> []" "[] \<noteq> js ''Error''"
    by (simp_all add: js_Cons js_Nil)
  have tr: "trim (js ''Info'' @ s) = trimEnd (js ''Info'' @ s)" for s
    by (simp add: js_Cons js_Nil trim_nonws is_ws_def)
  assume "p = None \<or> p = Some [] \<or> p = Some (js ''Info'')"
  then show "fst (getVerboseMessage (Some m) p (Some mkt) st)
        = trimEnd (js ''Info'' @ js '' '' @ mkt @ js '': Step '' @
                   show_nat (1 + step_count st mkt) @ js '') '' @ m)"
    unfolding getVerboseMessage_def Let_def using ne by (auto simp add: tr)
next
  have ne: "js ''Error'' \<noteq> js ''Info''"
    by (simp add: js_Cons js_Nil)
  assume "p = Some (js ''Error'')"
  then show "fst (getVerboseMessage (Some m) p (Some mkt) st)
        = trimStart (mkt @ js '': Step '' @ show_nat (1 + step_count st mkt) @ js '') '' @ m)"
    unfolding getVerboseMessage_def Let_def using ne by simp
next
  fix q
  assume "p = Some q \<and> q \<noteq> [] \<and> q \<noteq> js ''Info'' \<and> q \<noteq> js ''Error''"
  then have p: "p = Some q" and q: "q \<noteq> []" "q \<noteq> js ''Info''" "q \<noteq> js ''Error''"
    by simp_all
  show "fst (getVerboseMessage (Some m) p (Some mkt) st)
        = q @ js '' '' @ mkt @ js '': Step '' @ show_nat (1 + step_count st mkt) @ js '') '' @ m"
    unfolding getVerboseMessage_def Let_def p by (simp add: q)
qed

theorem getVerboseMessage_form_witness:
  "fst (getVerboseMessage (Some (js ''Uploading  '')) None (Some Chrome) initial)
     = js ''Info chrome: Step 1) Uploading'' \<and>
   fst (getVerboseMessage (Some (js ''failed  '')) (Some (js ''Error'')) (Some (js '' chrome''))
          initial)
     = js ''chrome: Step 1) failed  '' \<and>
   fst (getVerboseMessage (Some (js ''slow  '')) (Some (js ''Warn'')) (Some Chrome) initial)
     = js ''Warn chrome: Step 1) slow  '' \<and>
   step_count (snd (getVerboseMessage (Some (js ''Uploading  '')) None (Some Chrome) initial))
     Chrome = 1"
proof -
  have a: "trimEnd (js ''Info'' @ js '' '' @ Chrome @ js '': Step '' @
             show_nat (1 + step_count initial Chrome) @ js '') '' @ js ''Uploading  '')
           = js ''Info chrome: Step 1) Uploading''"
    by (simp add: trimEnd_def js_Cons js_Nil is_ws_def Chrome_def show_nat.simps step_count_def
        initial_def)
  have b: "trimStart (js '' chrome'' @ js '': Step '' @
             show_nat (1 + step_count initial (js '' chrome'')) @ js '') '' @ js ''failed  '')
           = js ''chrome: Step 1) failed  ''"
    by (simp add: trimStart_def js_Cons js_Nil is_ws_def show_nat.simps step_count_def
        initial_def)
  have c: "js ''Warn'' @ js '' '' @ Chrome @ js '': Step '' @
             show_nat (1 + step_count initial Chrome) @ js '') '' @ js ''slow  ''
           = js ''Warn chrome: Step 1) slow  ''"
    by (simp add: js_Cons js_Nil Chrome_def show_nat.simps step_count_def initial_def)
  have d: "js ''Warn'' \<noteq> []" "js ''Warn'' \<noteq> js ''Info''" "js ''Warn'' \<noteq> js ''Error''"
    by (simp_all add: js_Cons js_Nil)
  have e: "step_count initial Chrome = 0"
    by (simp add: step_count_def initial_def)
  from getVerboseMessage_form [of "js ''Uploading  ''" None Chrome initial] a
  have w1: "fst (getVerboseMessage (Some (js ''Uploading  '')) None (Some Chrome) initial)
              = js ''Info chrome: Step 1) Uploading''"
    and w4: "snd (getVerboseMessage (Some (js ''Uploading  '')) None (Some Chrome) initial)
              = initial\<lparr>verboseStepMap :=
                  (verboseStepMap initial)(Chrome \<mapsto> 1 + step_count initial Chrome)\<rparr>"
    by simp_all
  from getVerboseMessage_form [of "js ''failed  ''" "Some (js ''Error'')" "js '' chrome''" initial] b
  have w2: "fst (getVerboseMessage (Some (js ''failed  '')) (Some (js ''Error''))
                   (Some (js '' chrome'')) initial)
              = js ''chrome: Step 1) failed  ''"
    by simp
  from getVerboseMessage_form [of "js ''slow  ''" "Some (js ''Warn'')" Chrome initial] c d
  have w3: "fst (getVerboseMessage (Some (js ''slow  '')) (Some (js ''Warn'')) (Some Chrome)
                   initial)
              = js ''Warn chrome: Step 1) slow  ''"
    by simp
  show ?thesis
    unfolding w1 w2 w3 w4 by (simp add: step_count_def initial_def)
qed

subsection \<open>Release notes\<close>

text \<open>
  C6. The release notes go to the \<open>notes\<close> property of the store \<open>edge\<close> and nowhere
  else: the options of every other store, and the keys of the collection, stay as they
  are; when \<open>edge\<close> is not in the collection, or no notes are given, nothing changes.
\<close>

theorem apply_notes_frame:
  "(\<forall>b. b \<noteq> Edge \<longrightarrow> map_of (apply_notes (edgeNotes_input e) ks) b = map_of ks b) \<and>
   map fst (apply_notes (edgeNotes_input e) ks) = map fst ks \<and>
   (map_of ks Edge = None \<or> edgeNotes_input e = [] \<longrightarrow> apply_notes (edgeNotes_input e) ks = ks) \<and>
   (\<forall>opt. map_of ks Edge = Some opt \<and> edgeNotes_input e \<noteq> [] \<longrightarrow>
      map_of (apply_notes (edgeNotes_input e) ks) Edge
        = Some (opt\<lparr>notes' := Some (edgeNotes_input e)\<rparr>))"
proof (intro conjI allI impI)
  fix b assume "b \<noteq> Edge"
  then show "map_of (apply_notes (edgeNotes_input e) ks) b = map_of ks b"
    by (simp add: apply_notes_def update_conv' split: option.splits)
next
  show "map fst (apply_notes (edgeNotes_input e) ks) = map fst ks"
    by (simp add: apply_notes_def update_present_keys split: option.splits)
next
  assume "map_of ks Edge = None \<or> edgeNotes_input e = []"
  then show "apply_notes (edgeNotes_input e) ks = ks"
    by (auto simp add: apply_notes_def split: option.splits)
next
  fix opt assume "map_of ks Edge = Some opt \<and> edgeNotes_input e \<noteq> []"
  then show "map_of (apply_notes (edgeNotes_input e) ks) Edge
        = Some (opt\<lparr>notes' := Some (edgeNotes_input e)\<rparr>)"
    by (simp add: apply_notes_def update_conv')
qed

theorem apply_notes_frame_witness:
  "map_of (apply_notes (edgeNotes_input (env0\<lparr>getInput := (\<lambda>n. if n = js ''notes'' then js ''Fixes'' else [])\<rparr>))
             [(Chrome, opt_ok), (Edge, no_options)]) Edge
     = Some (no_options\<lparr>notes' := Some (js ''Fixes'')\<rparr>) \<and>
   map_of (apply_notes (edgeNotes_input (env0\<lparr>getInput := (\<lambda>n. if n = js ''notes'' then js ''Fixes'' else [])\<rparr>))
             [(Chrome, opt_ok), (Edge, no_options)]) Chrome
     = Some opt_ok \<and>
   apply_notes (edgeNotes_input (env0\<lparr>getInput := (\<lambda>n. if n = js ''notes'' then js ''Fixes'' else [])\<rparr>))
             [(Chrome, opt_ok)] = [(Chrome, opt_ok)]"
proof -
  let ?e = "env0\<lparr>getInput := (\<lambda>n. if n = js ''notes'' then js ''Fixes'' else [])\<rparr>"
  have n: "edgeNotes_input ?e = js ''Fixes''" "js ''Fixes'' \<noteq> []"
    by (simp_all add: edgeNotes_input_def or_input_def env0_def js_Cons js_Nil)
  have ne: "Chrome \<noteq> Edge"
    by (simp add: Chrome_def Edge_def js_Cons js_Nil)
  have m: "map_of [(Chrome, opt_ok), (Edge, no_options)] Edge = Some no_options"
    "map_of [(Chrome, opt_ok), (Edge, no_options)] Chrome = Some opt_ok"
    "map_of [(Chrome, opt_ok)] Edge = None"
    using ne by simp_all
  show ?thesis
    using apply_notes_frame [of ?e "[(Chrome, opt_ok), (Edge, no_options)]"]
      apply_notes_frame [of ?e "[(Chrome, opt_ok)]"] n ne m
    by simp
qed

subsection \<open>The bundle path resolver\<close>

text \<open>
  C9. When the bundle path holds no \<open>{version}\<close>, the resolver returns the path as it
  is, whatever the file system holds, so resolving twice gives the same path; and
  resolving again after the path has been stored in \<open>zip\<close>, as \<open>submitChrome\<close> stores it,
  gives the same path once more. The resolver reads the options and the file system
  only: it has no state to change.
\<close>

theorem getCorrectZip_idempotent:
  assumes "path = (case getBundleFiles opt of None \<Rightarrow> [] | Some p \<Rightarrow> p)"
    and "\<not> str_includes path (js ''{version}'')"
  shows "getCorrectZip e1 opt = Inr path \<and>
         getCorrectZip e2 opt = Inr path \<and>
         getCorrectZip e2 (opt\<lparr>zip' := Some path\<rparr>) = Inr path"
  using assms
  by (auto simp add: getCorrectZip_def getBundleFiles_def or_str_def str_val_def Let_def
      split: option.splits if_splits)

theorem getCorrectZip_idempotent_witness:
  "\<not> str_includes (js ''ext.zip'') (js ''{version}'') \<and>
   getCorrectZip env_version (no_options\<lparr>file' := Some (js ''ext.zip'')\<rparr>) = Inr (js ''ext.zip'') \<and>
   getCorrectZip env0 (no_options\<lparr>file' := Some (js ''ext.zip'')\<rparr>) = Inr (js ''ext.zip'') \<and>
   getCorrectZip env0 (no_options\<lparr>file' := Some (js ''ext.zip''), zip' := Some (js ''ext.zip'')\<rparr>)
     = Inr (js ''ext.zip'')"
proof -
  have a: "\<not> str_includes (js ''ext.zip'') (js ''{version}'')"
    by (simp add: str_includes_def js_Cons js_Nil)
  have b: "js ''ext.zip'' = (case getBundleFiles (no_options\<lparr>file' := Some (js ''ext.zip'')\<rparr>) of
             None \<Rightarrow> [] | Some p \<Rightarrow> p)"
    by (simp add: getBundleFiles_def or_str_def no_options_def str_val_def)
  show ?thesis
    using getCorrectZip_idempotent [OF b a, of env_version env0] a by simp
qed

text \<open>
  C5. With a descriptor whose \<open>version\<close> is \<open>1$&\<close>, the path \<open>ext-v{version}.zip\<close>
  resolves to \<open>ext-v1{version}.zip\<close>: \<open>replace\<close> reads \<open>$&\<close> in the version as the matched
  text, so the result is not the path with the placeholder replaced by the version.
\<close>

theorem getCorrectZip_dollar:
  "getCorrectZip env_dollar (no_options\<lparr>zip' := Some (js ''ext-v{version}.zip'')\<rparr>)
     = Inr (js ''ext-v1{version}.zip'')"
  by (simp add: getCorrectZip_def env_dollar_def env0_def no_options_def getIsFileExists_def
      getFullPath_def str_includes_def str_replace_def Let_def js_Cons js_Nil)

text \<open>With the version \<open>1.2.3\<close> the placeholder is replaced by the version.\<close>

lemma getCorrectZip_example:
  "getCorrectZip env_version (no_options\<lparr>zip' := Some (js ''ext-v{version}.zip'')\<rparr>)
     = Inr (js ''ext-v1.2.3.zip'')"
  by (simp add: getCorrectZip_def env_version_def env0_def no_options_def getIsFileExists_def
      getFullPath_def str_includes_def str_replace_def Let_def js_Cons js_Nil)

text \<open>
  So it is for every version that holds no dollar sign: the first occurrence of the
  placeholder, and that one only, is replaced by the version (by the empty string when
  the descriptor has no \<open>version\<close>).
\<close>

lemma getSubstitution_no_dollar:
  "36 \<notin> set repl \<Longrightarrow> getSubstitution m b a repl = repl"
  by (induction m b a repl rule: getSubstitution.induct) auto

lemma find_first_Some: "find_first pat s = Some (b, a) \<Longrightarrow> s = b @ pat @ a"
proof (induction s arbitrary: b)
  case Nil
  then show ?case by (simp split: if_splits)
next
  case (Cons c r)
  show ?case
  proof (cases "take (length pat) (c # r) = pat")
    case True
    with Cons.prems have "b = []" and "a = drop (length pat) (c # r)" by simp_all
    with True show ?thesis
      by (metis append_Nil append_take_drop_id)
  next
    case False
    with Cons.prems obtain b0 where "find_first pat r = Some (b0, a)" and "b = c # b0"
      by (auto split: option.splits)
    with Cons.IH [of b0] show ?thesis by simp
  qed
qed

lemma find_first_leftmost:
  "find_first pat s = Some (b, a) \<Longrightarrow> s = b' @ pat @ a' \<Longrightarrow> length b \<le> length b'"
proof (induction s arbitrary: b b')
  case Nil
  then show ?case by (simp split: if_splits)
next
  case (Cons c r)
  show ?case
  proof (cases "take (length pat) (c # r) = pat")
    case True
    with Cons.prems(1) show ?thesis by simp
  next
    case False
    with Cons.prems(1) obtain b0 where b0: "find_first pat r = Some (b0, a)" "b = c # b0"
      by (auto split: option.splits)
    from False Cons.prems(2) have "b' \<noteq> []"
      by auto
    with Cons.prems(2) obtain b1 where "b' = c # b1" and "r = b1 @ pat @ a'"
      by (cases b') auto
    with Cons.IH [OF b0(1), of b1] b0(2) show ?thesis by simp
  qed
qed

lemma find_first_None: "find_first pat s = None \<Longrightarrow> s \<noteq> b @ pat @ a"
proof (induction s arbitrary: b)
  case Nil
  then show ?case by (auto split: if_splits)
next
  case (Cons c r)
  then have nt: "take (length pat) (c # r) \<noteq> pat" and r: "find_first pat r = None"
    by (auto split: if_splits option.splits)
  show ?case
  proof
    assume eq: "c # r = b @ pat @ a"
    show False
    proof (cases b)
      case Nil
      with eq nt show False by auto
    next
      case (Cons c' b1)
      with eq have "r = b1 @ pat @ a" by simp
      with Cons.IH [OF r, of b1] show False by simp
    qed
  qed
qed

lemma getCorrectZip_literal:
  assumes "getIsFileExists e (case versionFile opt of None \<Rightarrow> js ''package.json'' | Some v \<Rightarrow> v)"
    and "readJson e (case versionFile opt of None \<Rightarrow> js ''package.json'' | Some v \<Rightarrow> v)
           = Inr version"
    and "36 \<notin> set (case version of None \<Rightarrow> [] | Some v \<Rightarrow> v)"
    and "str_includes (case getBundleFiles opt of None \<Rightarrow> [] | Some p \<Rightarrow> p) (js ''{version}'')"
  shows "\<exists>b a. (case getBundleFiles opt of None \<Rightarrow> [] | Some p \<Rightarrow> p) = b @ js ''{version}'' @ a \<and>
           (\<forall>b' a'. (case getBundleFiles opt of None \<Rightarrow> [] | Some p \<Rightarrow> p)
                       = b' @ js ''{version}'' @ a' \<longrightarrow> length b \<le> length b') \<and>
           getCorrectZip e opt = Inr (b @ (case version of None \<Rightarrow> [] | Some v \<Rightarrow> v) @ a)"
proof -
  let ?out = "case getBundleFiles opt of None \<Rightarrow> [] | Some p \<Rightarrow> p"
  let ?v = "case version of None \<Rightarrow> [] | Some v \<Rightarrow> v"
  have out: "(if (case zip' opt of None \<Rightarrow> [] | Some z \<Rightarrow> z) \<noteq> []
              then (case zip' opt of None \<Rightarrow> [] | Some z \<Rightarrow> z)
              else (case file' opt of None \<Rightarrow> [] | Some f \<Rightarrow> f)) = ?out"
    by (simp add: getBundleFiles_def or_str_def str_val_def split: option.splits)
  from assms(4) obtain b a where f: "find_first (js ''{version}'') ?out = Some (b, a)"
    by (auto simp add: str_includes_def)
  have 1: "?out = b @ js ''{version}'' @ a"
    using f by (rule find_first_Some)
  have 2: "\<forall>b' a'. ?out = b' @ js ''{version}'' @ a' \<longrightarrow> length b \<le> length b'"
    using find_first_leftmost [OF f] by blast
  have 3: "getCorrectZip e opt = Inr (b @ ?v @ a)"
    using assms(1,2,4) f getSubstitution_no_dollar [OF assms(3)]
    by (simp add: getCorrectZip_def Let_def out str_replace_def)
  from 1 2 3 show ?thesis by blast
qed

subsection \<open>What the run emits\<close>

lemma events_emit [simp]: "events (emit ev st) = events st @ [ev]"
  by (simp add: emit_def)

lemma skip_warning_kind [simp]:
  "\<not> is_SetFailed (skip_warning b)" "\<not> is_submit_call (skip_warning b)"
  by (simp_all add: skip_warning_def)

lemma events_console_log:
  "events (console_log m st) = events st @ [if consoleLogIsInfo st then Info m else ConsoleLog m]"
  by (simp add: console_log_def)

lemma failed_iff: "failed st \<longleftrightarrow> filter is_SetFailed (events st) \<noteq> []"
  by (simp add: failed_def list_ex_iff filter_empty_conv)

lemma failed_emit: "failed (emit ev st) \<longleftrightarrow> failed st \<or> is_SetFailed ev"
  by (auto simp add: failed_def)

lemma failed_console_log [simp]: "failed (console_log m st) = failed st"
  by (simp add: console_log_def failed_emit)

lemma events_getVerboseMessage [simp]:
  "events (snd (getVerboseMessage m p k st)) = events st"
  by (simp add: getVerboseMessage_def Let_def)

lemma failed_getVerboseMessage [simp]:
  "failed (snd (getVerboseMessage m p k st)) = failed st"
  by (simp add: failed_def)

lemma failed_getVerboseLogger [simp]: "failed (getVerboseLogger mkt m st) = failed st"
  by (simp add: getVerboseLogger_def split: prod.splits)
     (metis failed_console_log failed_getVerboseMessage snd_conv)

lemma failed_enableVerboseLogging [simp]: "failed (enableVerboseLogging mkt st) = failed st"
  by (simp add: enableVerboseLogging_def failed_def)

lemma failed_getVerboseError [simp]: "failed (snd (getVerboseError err mkt i st)) = failed st"
  by (simp add: getVerboseError_def split: prod.splits)
     (metis failed_getVerboseMessage snd_conv)

lemma failed_logSuccessfullyPublished [simp]:
  "failed (snd (logSuccessfullyPublished e i mkt z st)) = failed st"
  by (simp add: logSuccessfullyPublished_def Let_def split: sum.splits)


lemma failed_submit_call [simp]: "failed (snd (submit_call e opt st)) = failed st"
  by (simp add: submit_call_def Let_def vLog_def failed_emit)

lemma failed_submit_catch [simp]: "failed (snd (submit_catch e opt err st)) = failed st"
  by (simp add: submit_catch_def split_beta split: sum.split)

lemma failed_submit_resume [simp]: "failed (snd (submit_resume e opt st)) = failed st"
  by (simp add: submit_resume_def Let_def split_beta split: option.split sum.split)

lemma failed_submitChrome [simp]: "failed (snd (snd (submitChrome e opt st))) = failed st"
  by (simp add: submitChrome_def Let_def split_beta split: sum.split)

lemma failed_resolve_browser [simp]:
  "failed (snd (resolve_browser e a v vf b ks st)) = failed st"
  by (simp add: resolve_browser_def Let_def failed_emit split: option.splits)

lemma failed_resolve_loop [simp]:
  "failed (snd (resolve_loop e a v vf bs ks st)) = failed st"
proof (induction bs arbitrary: ks st)
  case Nil
  then show ?case by simp
next
  case (Cons b bs)
  show ?case
  proof (cases "resolve_browser e a v vf b ks st")
    case (Pair r st')
    then have f: "failed st' = failed st"
      using failed_resolve_browser [of e a v vf b ks st] by simp
    show ?thesis
      using Pair f Cons.IH by (cases r) simp_all
  qed
qed

lemma failed_setup_state [simp]: "failed (setup_state e st) = failed st"
  by (simp add: setup_state_def Let_def failed_def)


lemma failed_allSettled [simp]: "failed (snd (allSettled e ps st)) = failed st"
proof (induction ps arbitrary: st)
  case Nil
  then show ?case by simp
next
  case (Cons p ps)
  then show ?case by (cases p) (simp_all add: split_beta)
qed

lemma length_allSettled [simp]: "length (fst (allSettled e ps st)) = length ps"
proof (induction ps arbitrary: st)
  case Nil
  then show ?case by simp
next
  case (Cons p ps)
  then show ?case by (cases p) (simp_all add: split_beta)
qed

lemma failed_deploy_browser [simp]: "failed (snd (deploy_browser e b ks st)) = failed st"
  by (simp add: deploy_browser_def Let_def split_beta failed_emit split: option.split)

lemma failed_deployPromises [simp]: "failed (snd (deployPromises e bs ks st)) = failed st"
proof (induction bs arbitrary: ks st)
  case Nil
  then show ?case by simp
next
  case (Cons b bs)
  show ?case
  proof (cases "deploy_browser e b ks st")
    case (Pair r st')
    then have f: "failed st' = failed st"
      using failed_deploy_browser [of e b ks st] by simp
    show ?thesis
    proof (cases r)
      case (Inl err)
      with Pair f show ?thesis by simp
    next
      case (Inr pk)
      with Pair f Cons.IH [of "snd pk" st'] show ?thesis
        by (cases pk) (simp add: split_beta split: sum.split)
    qed
  qed
qed

lemma calls_resolve_browser [simp]:
  "filter is_submit_call (events (snd (resolve_browser e a v vf b ks st)))
     = filter is_submit_call (events st)"
  by (simp add: resolve_browser_def Let_def split: option.splits)

lemma calls_resolve_loop [simp]:
  "filter is_submit_call (events (snd (resolve_loop e a v vf bs ks st)))
     = filter is_submit_call (events st)"
proof (induction bs arbitrary: ks st)
  case Nil
  then show ?case by simp
next
  case (Cons b bs)
  show ?case
  proof (cases "resolve_browser e a v vf b ks st")
    case (Pair r st')
    then have f: "filter is_submit_call (events st') = filter is_submit_call (events st)"
      using calls_resolve_browser [of e a v vf b ks st] by simp
    show ?thesis
      using Pair f Cons.IH by (cases r) simp_all
  qed
qed

lemma calls_setup_state [simp]:
  "filter is_submit_call (events (setup_state e st)) = filter is_submit_call (events st)"
  by (simp add: setup_state_def Let_def)

declare update_present_keys [simp]

lemma resolve_browser_keys:
  "resolve_browser e a v vf b ks st = (Inr ks', st') \<Longrightarrow> map fst ks' = map fst ks"
  by (auto simp add: resolve_browser_def Let_def split: option.splits)

lemma resolve_loop_keys:
  "resolve_loop e a v vf bs ks st = (Inr ks', st') \<Longrightarrow> map fst ks' = map fst ks"
proof (induction bs arbitrary: ks st)
  case Nil
  then show ?case by simp
next
  case (Cons b bs)
  show ?case
  proof (cases "resolve_browser e a v vf b ks st")
    case (Pair r st1)
    show ?thesis
    proof (cases r)
      case (Inl err)
      with Pair Cons.prems show ?thesis by simp
    next
      case (Inr ks1)
      with Pair Cons.prems have "resolve_loop e a v vf bs ks1 st1 = (Inr ks', st')"
        by simp
      from Cons.IH [OF this] resolve_browser_keys [of e a v vf b ks st ks1 st1] Pair Inr
      show ?thesis by simp
    qed
  qed
qed

lemma apply_notes_keys [simp]: "map fst (apply_notes n ks) = map fst ks"
  by (simp add: apply_notes_def split: option.splits)

lemma failed_run_try_throw:
  "fst (run_try e st0) \<noteq> None \<Longrightarrow> failed (snd (run_try e st0)) = failed st0"
  by (auto simp add: run_try_def resolve_all_def Let_def split_beta failed_emit
      split: sum.splits if_splits)

lemma some_hasBundleFile_False:
  assumes "set bs \<subseteq> fst ` set ks"
    and "\<forall>b\<in>set bs. \<forall>opt. map_of ks b = Some opt \<longrightarrow> \<not> hasBundleFile opt"
  shows "some_hasBundleFile e ks bs = Inr False"
  using assms
proof (induction bs)
  case Nil
  then show ?case by simp
next
  case (Cons b bs)
  then obtain opt where "map_of ks b = Some opt"
    by (metis list.set_intros(1) map_of_eq_None_iff not_Some_eq subsetD)
  with Cons show ?case by simp
qed

lemma browserEntries_subset: "set (browserEntries ks) \<subseteq> fst ` set ks"
  by (auto simp add: browserEntries_def)

subsection \<open>The run\<close>

text \<open>
  C3. When the loop over the candidate stores has run and has left no candidate with a
  bundle path, the run fails with "No artifact found for deployment", and it has called
  no store's submit routine.
\<close>

theorem no_artifact_fails_before_submit:
  assumes "keysInput e = Inr ks0" and "browserEntries ks0 \<noteq> []"
    and "resolve_all e ks0 (setup_state e st0) = (Inr ks1, st3)"
    and "\<forall>b\<in>set (browserEntries ks0). \<forall>opt. map_of ks1 b = Some opt \<longrightarrow> \<not> hasBundleFile opt"
  shows "run e st0
           = emit (SetFailed (tag (sign_red @ js '' ERROR'') @ js '' '' @
                     js ''No artifact found for deployment'')) st3 \<and>
         filter is_submit_call (events (run e st0)) = filter is_submit_call (events st0)"
proof -
  from assms(3) have k: "map fst ks1 = map fst ks0"
    unfolding resolve_all_def by (rule resolve_loop_keys)
  have "set (browserEntries ks0) \<subseteq> fst ` set ks1"
    using browserEntries_subset [of ks0] k by (metis list.set_map)
  from some_hasBundleFile_False [OF this assms(4)]
  have h: "some_hasBundleFile e ks1 (browserEntries ks0) = Inr False" .
  have r: "run e st0
           = emit (SetFailed (tag (sign_red @ js '' ERROR'') @ js '' '' @
                     js ''No artifact found for deployment'')) st3"
    using assms(1,2,3) h
    by (simp add: run_def run_try_def run_catch_def new_Error_def tmpl_def)
  have "filter is_submit_call (events (snd (resolve_all e ks0 (setup_state e st0))))
          = filter is_submit_call (events st0)"
    by (simp add: resolve_all_def)
  then have "filter is_submit_call (events st3) = filter is_submit_call (events st0)"
    by (simp add: assms(3))
  with r show ?thesis by simp
qed

lemma browserEntries_firefox: "browserEntries [(Firefox, no_options)] = [Firefox]"
  by (simp add: browserEntries_def supportedBrowserSet_def Firefox_def Chrome_def js_Cons js_Nil)

lemma resolve_all_firefox: "resolve_all env_firefox [(Firefox, no_options)] (setup_state env_firefox initial)
      = (Inr [(Firefox, no_options)],
         emit (skip_warning Firefox)
           (emit (Info (sign_purple @ js '' Plasmo Browser Platform Publish v3'')) initial))"
  unfolding resolve_all_def browserEntries_firefox
  by (simp add: resolve_browser_def setup_state_def env_firefox_def env0_def Let_def
        artifact_input_def verbose_input_def versionFile_input_def or_input_def
        getBundleFiles_def or_str_def str_val_def no_options_def)

theorem no_artifact_fails_before_submit_witness:
  "run env_firefox initial
     = emit (SetFailed (tag (sign_red @ js '' ERROR'') @ js '' '' @
               js ''No artifact found for deployment''))
         (emit (skip_warning Firefox)
            (emit (Info (sign_purple @ js '' Plasmo Browser Platform Publish v3'')) initial)) \<and>
   filter is_submit_call (events (run env_firefox initial)) = []"
proof -
  have k: "keysInput env_firefox = Inr [(Firefox, no_options)]"
    by (simp add: env_firefox_def env0_def)
  have n: "browserEntries [(Firefox, no_options)] \<noteq> []"
    by (simp add: browserEntries_firefox)
  have h: "\<forall>b\<in>set (browserEntries [(Firefox, no_options)]).
             \<forall>opt. map_of [(Firefox, no_options)] b = Some opt \<longrightarrow> \<not> hasBundleFile opt"
    by (simp add: browserEntries_firefox hasBundleFile_def getBundleFiles_def or_str_def str_val_def no_options_def)
  have i: "events initial = []"
    by (simp add: initial_def)
  from no_artifact_fails_before_submit [OF k n resolve_all_firefox h] i show ?thesis by simp
qed

text \<open>
  C10. When the body of the \<open>try\<close> throws a value that is not an instance of \<open>Error\<close>,
  the \<open>catch\<close> does nothing: the run ends in the state the throw left, and it has
  failed only if it had failed before it started.
\<close>

theorem run_catch_non_Error:
  assumes "run_try e st0 = (Some err, st)" and "\<not> instanceofError err"
  shows "run e st0 = st \<and> (failed (run e st0) \<longleftrightarrow> failed st0)"
proof -
  from assms have r: "run e st0 = st"
    by (simp add: run_def run_catch_def)
  from assms(1) failed_run_try_throw [of e st0] have "failed st = failed st0"
    by simp
  with r show ?thesis by simp
qed

theorem run_catch_non_Error_witness:
  "run_try (env0\<lparr>keysInput := Inl thrown_text\<rparr>) initial
     = (Some thrown_text,
        emit (Info (sign_purple @ js '' Plasmo Browser Platform Publish v3'')) initial) \<and>
   \<not> instanceofError thrown_text \<and>
   run (env0\<lparr>keysInput := Inl thrown_text\<rparr>) initial
     = emit (Info (sign_purple @ js '' Plasmo Browser Platform Publish v3'')) initial \<and>
   \<not> failed (run (env0\<lparr>keysInput := Inl thrown_text\<rparr>) initial)"
proof -
  have a: "run_try (env0\<lparr>keysInput := Inl thrown_text\<rparr>) initial
     = (Some thrown_text,
        emit (Info (sign_purple @ js '' Plasmo Browser Platform Publish v3'')) initial)"
    by (simp add: run_try_def env0_def)
  have b: "\<not> instanceofError thrown_text"
    by (simp add: thrown_text_def)
  have c: "\<not> failed initial"
    by (simp add: failed_def initial_def)
  from run_catch_non_Error [OF a b] a b c show ?thesis by (simp add: failed_emit)
qed


subsection \<open>Resolving the bundle source\<close>

lemma emit_as_update: "emit w st = st\<lparr>events := events st @ [w]\<rparr>"
  by (simp add: emit_def)

lemma resolve_browser_Some:
  assumes "map_of ks b = Some opt"
  shows "\<exists>opt'. resolve_browser e (artifact_input e) v vf b ks st
           = (Inr (AList.update b opt' ks),
              (if spec_bundle_source e b opt = None then emit (skip_warning b) st else st)) \<and>
         zip' opt' = (case spec_bundle_source e b opt of Some p \<Rightarrow> Some p | None \<Rightarrow> zip' opt) \<and>
         file' opt' = file' opt"
  using assms
  by (auto simp add: resolve_browser_def spec_bundle_source_def Let_def str_val_def
      split: option.splits)

lemma resolve_loop_spec:
  assumes "distinct bs" and "set bs \<subseteq> fst ` set ks"
  shows "\<exists>ks'. resolve_loop e (artifact_input e) v vf bs ks st
            = (Inr ks',
               st\<lparr>events := events st @
                  map skip_warning
                    (filter (\<lambda>b. case map_of ks b of
                                   Some opt \<Rightarrow> spec_bundle_source e b opt = None
                                 | None \<Rightarrow> False) bs)\<rparr>) \<and>
          map fst ks' = map fst ks \<and>
          (\<forall>b opt. b \<in> set bs \<longrightarrow> map_of ks b = Some opt \<longrightarrow>
             (\<exists>opt'. map_of ks' b = Some opt' \<and>
                zip' opt' = (case spec_bundle_source e b opt of
                               Some p \<Rightarrow> Some p | None \<Rightarrow> zip' opt) \<and>
                file' opt' = file' opt)) \<and>
          (\<forall>b. b \<notin> set bs \<longrightarrow> map_of ks' b = map_of ks b)"
  using assms
proof (induction bs arbitrary: ks st)
  case Nil
  then show ?case by simp
next
  case (Cons b bs)
  let ?skip = "\<lambda>ks b. case map_of ks b of
                         Some opt \<Rightarrow> spec_bundle_source e b opt = None | None \<Rightarrow> False"
  from Cons.prems obtain opt where opt: "map_of ks b = Some opt"
    by (metis list.set_intros(1) map_of_eq_None_iff not_Some_eq subsetD)
  from resolve_browser_Some [OF opt, of e v vf st] obtain opt' where
    rb: "resolve_browser e (artifact_input e) v vf b ks st
           = (Inr (AList.update b opt' ks),
              (if spec_bundle_source e b opt = None then emit (skip_warning b) st else st))"
    and z: "zip' opt' = (case spec_bundle_source e b opt of Some p \<Rightarrow> Some p | None \<Rightarrow> zip' opt)"
    and f: "file' opt' = file' opt"
    by blast
  let ?ks1 = "AList.update b opt' ks"
  let ?st1 = "if spec_bundle_source e b opt = None then emit (skip_warning b) st else st"
  have keys1: "map fst ?ks1 = map fst ks"
    using opt by (rule update_present_keys)
  have nb: "b \<notin> set bs" and d: "distinct bs"
    using Cons.prems(1) by simp_all
  have sub: "set bs \<subseteq> fst ` set ?ks1"
    using Cons.prems(2) keys1 by (metis list.set_map set_subset_Cons subset_trans)
  have other: "map_of ?ks1 c = map_of ks c" if "c \<noteq> b" for c
    using that by (simp add: update_conv')
  have same: "map_of ?ks1 b = Some opt'"
    by (simp add: update_conv')
  from Cons.IH [OF d sub, of ?st1] obtain ks' where
    loop: "resolve_loop e (artifact_input e) v vf bs ?ks1 ?st1
             = (Inr ks', ?st1\<lparr>events := events ?st1 @ map skip_warning (filter (?skip ?ks1) bs)\<rparr>)"
    and keys': "map fst ks' = map fst ?ks1"
    and inside: "\<forall>c opt. c \<in> set bs \<longrightarrow> map_of ?ks1 c = Some opt \<longrightarrow>
             (\<exists>opt'. map_of ks' c = Some opt' \<and>
                zip' opt' = (case spec_bundle_source e c opt of
                               Some p \<Rightarrow> Some p | None \<Rightarrow> zip' opt) \<and>
                file' opt' = file' opt)"
    and outside: "\<forall>c. c \<notin> set bs \<longrightarrow> map_of ks' c = map_of ?ks1 c"
    by blast
  have filt: "filter (?skip ?ks1) bs = filter (?skip ks) bs"
  proof (rule filter_cong [OF refl])
    fix x
    assume "x \<in> set bs"
    with nb have "x \<noteq> b" by auto
    then show "?skip ?ks1 x = ?skip ks x"
      by (simp add: other)
  qed
  have st_eq: "?st1\<lparr>events := events ?st1 @ map skip_warning (filter (?skip ?ks1) bs)\<rparr>
               = st\<lparr>events := events st @ map skip_warning (filter (?skip ks) (b # bs))\<rparr>"
    unfolding filt using opt by (simp add: emit_as_update)
  have 1: "resolve_loop e (artifact_input e) v vf (b # bs) ks st
             = (Inr ks', st\<lparr>events := events st @ map skip_warning (filter (?skip ks) (b # bs))\<rparr>)"
    using rb loop st_eq by simp
  have 2: "map fst ks' = map fst ks"
    using keys' keys1 by simp
  have 3: "\<exists>q'. map_of ks' c = Some q' \<and>
             zip' q' = (case spec_bundle_source e c q of Some p \<Rightarrow> Some p | None \<Rightarrow> zip' q) \<and>
             file' q' = file' q"
    if "c \<in> set (b # bs)" and "map_of ks c = Some q" for c q
  proof (cases "c = b")
    case True
    with that opt have q: "q = opt" by simp
    from nb outside same have m: "map_of ks' b = Some opt'" by simp
    show ?thesis unfolding q True using m z f by blast
  next
    case False
    with that have "c \<in> set bs" and "map_of ?ks1 c = Some q"
      using other by simp_all
    with inside show ?thesis by blast
  qed
  have 4: "map_of ks' c = map_of ks c" if "c \<notin> set (b # bs)" for c
    using that outside other by simp
  from 1 2 3 4 show ?case by blast
qed

lemma spec_bundle_source_nonempty: "spec_bundle_source e b opt = Some p \<Longrightarrow> p \<noteq> []"
  by (auto simp add: spec_bundle_source_def str_val_def split: if_splits option.splits)

lemma spec_bundle_source_None:
  "spec_bundle_source e b opt = None \<Longrightarrow> \<not> truthy (str_val (getBundleFiles opt))"
  by (auto simp add: spec_bundle_source_def str_val_def split: if_splits option.splits)

lemma distinct_browserEntries: "distinct (map fst ks) \<Longrightarrow> distinct (browserEntries ks)"
  by (simp add: browserEntries_def)

text \<open>
  C1. The keys of a JavaScript object are distinct. For every candidate store, the loop
  of \<open>run\<close> throws nothing and leaves in \<open>zip\<close> the source that the priority chain
  names: the override input, else the store's own \<open>zip\<close> or \<open>file\<close>, else the global
  artifact. When the chain names none, the store is left without a bundle and its
  warning is emitted. The loop emits these warnings, in the order of the candidates, and
  nothing else.
\<close>

theorem resolve_all_priority_chain:
  assumes "distinct (map fst ks)" and "b \<in> set (browserEntries ks)"
  shows "\<exists>opt opt' ks' st'.
           map_of ks b = Some opt \<and>
           resolve_all e ks st = (Inr ks', st') \<and>
           map_of ks' b = Some opt' \<and>
           (\<forall>p. spec_bundle_source e b opt = Some p \<longrightarrow> zip' opt' = Some p \<and> hasBundleFile opt') \<and>
           (spec_bundle_source e b opt = None \<longrightarrow>
              \<not> hasBundleFile opt' \<and> skip_warning b \<in> set (events st')) \<and>
           events st'
             = events st @
               map skip_warning
                 (filter (\<lambda>c. case map_of ks c of
                                 Some q \<Rightarrow> spec_bundle_source e c q = None
                               | None \<Rightarrow> False) (browserEntries ks))"
proof -
  let ?skip = "\<lambda>c. case map_of ks c of
                      Some q \<Rightarrow> spec_bundle_source e c q = None | None \<Rightarrow> False"
  from assms(2) browserEntries_subset obtain opt where opt: "map_of ks b = Some opt"
    by (metis map_of_eq_None_iff not_Some_eq subsetD)
  from resolve_loop_spec [OF distinct_browserEntries [OF assms(1)] browserEntries_subset,
      of e "verbose_input e" "versionFile_input e" st]
  obtain ks' where
    loop: "resolve_all e ks st
             = (Inr ks', st\<lparr>events := events st @ map skip_warning (filter ?skip (browserEntries ks))\<rparr>)"
    and inside: "\<forall>c q. c \<in> set (browserEntries ks) \<longrightarrow> map_of ks c = Some q \<longrightarrow>
             (\<exists>q'. map_of ks' c = Some q' \<and>
                zip' q' = (case spec_bundle_source e c q of Some p \<Rightarrow> Some p | None \<Rightarrow> zip' q) \<and>
                file' q' = file' q)"
    unfolding resolve_all_def by blast
  from inside assms(2) opt obtain opt' where
    m: "map_of ks' b = Some opt'"
    and z: "zip' opt' = (case spec_bundle_source e b opt of Some p \<Rightarrow> Some p | None \<Rightarrow> zip' opt)"
    and f: "file' opt' = file' opt"
    by blast
  let ?st' = "st\<lparr>events := events st @ map skip_warning (filter ?skip (browserEntries ks))\<rparr>"
  have 1: "zip' opt' = Some p \<and> hasBundleFile opt'" if "spec_bundle_source e b opt = Some p" for p
    using that z spec_bundle_source_nonempty [OF that]
    by (simp add: hasBundleFile_def getBundleFiles_def or_str_def str_val_def)
  have 2: "\<not> hasBundleFile opt' \<and> skip_warning b \<in> set (events ?st')"
    if "spec_bundle_source e b opt = None"
  proof
    from spec_bundle_source_None [OF that] z f that
    show "\<not> hasBundleFile opt'"
      by (simp add: hasBundleFile_def getBundleFiles_def)
    from that opt assms(2) have "b \<in> set (filter ?skip (browserEntries ks))"
      by simp
    then show "skip_warning b \<in> set (events ?st')"
      by simp
  qed
  have 3: "events ?st' = events st @ map skip_warning (filter ?skip (browserEntries ks))"
    by simp
  show ?thesis
  proof (intro exI conjI)
    show "map_of ks b = Some opt" by (rule opt)
    show "resolve_all e ks st = (Inr ks', ?st')" by (rule loop)
    show "map_of ks' b = Some opt'" by (rule m)
    show "\<forall>p. spec_bundle_source e b opt = Some p \<longrightarrow> zip' opt' = Some p \<and> hasBundleFile opt'"
      using 1 by blast
    show "spec_bundle_source e b opt = None \<longrightarrow>
            \<not> hasBundleFile opt' \<and> skip_warning b \<in> set (events ?st')"
      using 2 by blast
    show "events ?st' = events st @ map skip_warning (filter ?skip (browserEntries ks))"
      by (rule 3)
  qed
qed

lemma example_entries: "browserEntries keys_example = [Chrome, Firefox, Edge]"
  by (simp add: browserEntries_def keys_example_def supportedBrowserSet_def Chrome_def
      Firefox_def Edge_def Itero_def js_Cons js_Nil)

lemma example_distinct: "distinct (map fst keys_example)"
  by (simp add: keys_example_def Chrome_def Firefox_def Edge_def js_Cons js_Nil)

lemma example_lookup:
  "map_of keys_example Chrome = Some (no_options\<lparr>zip' := Some (js ''a.zip'')\<rparr>)"
  "map_of keys_example Firefox = Some no_options"
  "map_of keys_example Edge = Some (no_options\<lparr>file' := Some (js ''e.zip'')\<rparr>)"
  by (simp_all add: keys_example_def Chrome_def Firefox_def Edge_def js_Cons js_Nil)

lemma example_sources:
  "spec_bundle_source env_example Chrome (no_options\<lparr>zip' := Some (js ''a.zip'')\<rparr>)
     = Some (js ''a.zip'')"
  "spec_bundle_source env_example Firefox no_options = Some (js ''b.zip'')"
  "spec_bundle_source env_example Edge (no_options\<lparr>file' := Some (js ''e.zip'')\<rparr>)
     = Some (js ''c.zip'')"
  by (simp_all add: spec_bundle_source_def env_example_def env0_def artifact_input_def
      or_input_def getBundleFiles_def or_str_def str_val_def no_options_def
      Chrome_def Firefox_def Edge_def js_Cons js_Nil)


theorem resolve_all_priority_chain_witness:
  "(\<exists>ks' st' opt'. resolve_all env_example keys_example initial = (Inr ks', st') \<and>
      map_of ks' Chrome = Some opt' \<and> zip' opt' = Some (js ''a.zip'')) \<and>
   (\<exists>ks' st' opt'. resolve_all env_example keys_example initial = (Inr ks', st') \<and>
      map_of ks' Firefox = Some opt' \<and> zip' opt' = Some (js ''b.zip'')) \<and>
   (\<exists>ks' st' opt'. resolve_all env_example keys_example initial = (Inr ks', st') \<and>
      map_of ks' Edge = Some opt' \<and> zip' opt' = Some (js ''c.zip'')) \<and>
   (\<exists>ks' st' opt'. resolve_all env_firefox [(Firefox, no_options)] initial = (Inr ks', st') \<and>
      map_of ks' Firefox = Some opt' \<and> \<not> hasBundleFile opt' \<and>
      skip_warning Firefox \<in> set (events st'))"
proof (intro conjI)
  have "Chrome \<in> set (browserEntries keys_example)"
    by (simp add: example_entries)
  from resolve_all_priority_chain [OF example_distinct this, of env_example initial]
  show "\<exists>ks' st' opt'. resolve_all env_example keys_example initial = (Inr ks', st') \<and>
      map_of ks' Chrome = Some opt' \<and> zip' opt' = Some (js ''a.zip'')"
    using example_lookup(1) example_sources(1) by auto
next
  have "Firefox \<in> set (browserEntries keys_example)"
    by (simp add: example_entries)
  from resolve_all_priority_chain [OF example_distinct this, of env_example initial]
  show "\<exists>ks' st' opt'. resolve_all env_example keys_example initial = (Inr ks', st') \<and>
      map_of ks' Firefox = Some opt' \<and> zip' opt' = Some (js ''b.zip'')"
    using example_lookup(2) example_sources(2) by auto
next
  have "Edge \<in> set (browserEntries keys_example)"
    by (simp add: example_entries)
  from resolve_all_priority_chain [OF example_distinct this, of env_example initial]
  show "\<exists>ks' st' opt'. resolve_all env_example keys_example initial = (Inr ks', st') \<and>
      map_of ks' Edge = Some opt' \<and> zip' opt' = Some (js ''c.zip'')"
    using example_lookup(3) example_sources(3) by auto
next
  have d: "distinct (map fst [(Firefox, no_options)])"
    by simp
  have m: "Firefox \<in> set (browserEntries [(Firefox, no_options)])"
    by (simp add: browserEntries_firefox)
  have s: "spec_bundle_source env_firefox Firefox no_options = None"
    by (simp add: spec_bundle_source_def env_firefox_def env0_def artifact_input_def
        or_input_def getBundleFiles_def or_str_def str_val_def no_options_def)
  from resolve_all_priority_chain [OF d m, of env_firefox initial]
  show "\<exists>ks' st' opt'. resolve_all env_firefox [(Firefox, no_options)] initial = (Inr ks', st') \<and>
      map_of ks' Firefox = Some opt' \<and> \<not> hasBundleFile opt' \<and>
      skip_warning Firefox \<in> set (events st')"
    using s by auto
qed


subsection \<open>Dispatching and aggregating\<close>

lemma fst_logSuccessfullyPublished:
  "fst (logSuccessfullyPublished e i m z st) = fst (logSuccessfullyPublished e i m z st')"
  by (simp add: logSuccessfullyPublished_def Let_def split: sum.split)

lemma outcome_submit_catch [simp]: "outcome_of (fst (submit_catch e opt err st)) = Failed"
  by (simp add: submit_catch_def split_beta split: sum.split)

lemma outcome_submit_resume:
  "outcome_of (fst (submit_resume e opt st)) = outcome_of (fst (submit_resume e opt st'))"
proof -
  let ?L = "logSuccessfullyPublished e (props opt (js ''extId'')) market (zip' opt) st"
  let ?L' = "logSuccessfullyPublished e (props opt (js ''extId'')) market (zip' opt) st'"
  have eq: "fst ?L = fst ?L'"
    by (rule fst_logSuccessfullyPublished)
  show ?thesis
  proof (cases "fst ?L'")
    case (Inl err)
    with eq have "fst ?L = Inl err" by simp
    with Inl show ?thesis
      by (simp add: submit_resume_def Let_def split_beta split: option.split)
  next
    case (Inr u)
    with eq have "fst ?L = Inr u" by simp
    with Inr show ?thesis
      by (simp add: submit_resume_def Let_def split_beta split: option.split)
  qed
qed

lemma submitChrome_pending:
  "fst (submitChrome e opt st) = fst (submitChrome e opt st')"
  by (simp add: submitChrome_def submit_call_def Let_def split_beta split: sum.split)

lemma deploy_browser_alone:
  assumes "map_of ks b = Some opt"
  shows "\<exists>p ks' st' ks1 st1.
           deploy_browser e b ks st = (Inr (p, ks'), st') \<and>
           deploy_browser e b [(b, opt)] initial = (Inr (p, ks1), st1) \<and>
           map fst ks' = map fst ks \<and>
           (\<forall>c. c \<noteq> b \<longrightarrow> map_of ks' c = map_of ks c)"
proof (cases "hasBundleFile opt \<and> b = Chrome")
  case True
  have k: "map fst (AList.update b w ks) = map fst ks" for w
    using assms by (rule update_present_keys)
  from True assms submitChrome_pending [of e opt] show ?thesis
    by (simp add: deploy_browser_def Let_def split_beta update_conv' k)
next
  case False
  with assms show ?thesis
    by (auto simp add: deploy_browser_def Let_def)
qed


lemma deployPromises_spec:
  assumes "distinct bs" and "set bs \<subseteq> fst ` set ks"
  shows "\<exists>ps ks' st'.
           deployPromises e bs ks st = (Inr (ps, ks'), st') \<and>
           length ps = length bs \<and>
           map fst ks' = map fst ks \<and>
           (\<forall>c. c \<notin> set bs \<longrightarrow> map_of ks' c = map_of ks c) \<and>
           (\<forall>i opt. i < length bs \<longrightarrow> map_of ks (bs ! i) = Some opt \<longrightarrow>
              (\<exists>ks1 st1. deploy_browser e (bs ! i) [(bs ! i, opt)] initial
                            = (Inr (ps ! i, ks1), st1)))"
  using assms
proof (induction bs arbitrary: ks st)
  case Nil
  then show ?case by simp
next
  case (Cons b bs)
  from Cons.prems obtain opt where opt: "map_of ks b = Some opt"
    by (metis list.set_intros(1) map_of_eq_None_iff not_Some_eq subsetD)
  from deploy_browser_alone [OF opt, of e st] obtain p ks1 st1 ka sa where
    db: "deploy_browser e b ks st = (Inr (p, ks1), st1)"
    and alone: "deploy_browser e b [(b, opt)] initial = (Inr (p, ka), sa)"
    and keys1: "map fst ks1 = map fst ks"
    and other: "\<forall>c. c \<noteq> b \<longrightarrow> map_of ks1 c = map_of ks c"
    by blast
  have nb: "b \<notin> set bs" and d: "distinct bs"
    using Cons.prems(1) by simp_all
  have sub: "set bs \<subseteq> fst ` set ks1"
    using Cons.prems(2) keys1 by (metis list.set_map set_subset_Cons subset_trans)
  from Cons.IH [OF d sub, of st1] obtain ps ks' st' where
    dp: "deployPromises e bs ks1 st1 = (Inr (ps, ks'), st')"
    and len: "length ps = length bs"
    and keys': "map fst ks' = map fst ks1"
    and outside: "\<forall>c. c \<notin> set bs \<longrightarrow> map_of ks' c = map_of ks1 c"
    and inside: "\<forall>i opt. i < length bs \<longrightarrow> map_of ks1 (bs ! i) = Some opt \<longrightarrow>
              (\<exists>kb sb. deploy_browser e (bs ! i) [(bs ! i, opt)] initial
                          = (Inr (ps ! i, kb), sb))"
    by blast
  have 1: "deployPromises e (b # bs) ks st = (Inr (p # ps, ks'), st')"
    using db dp by simp
  have 2: "length (p # ps) = length (b # bs)"
    using len by simp
  have 3: "map fst ks' = map fst ks"
    using keys' keys1 by simp
  have 4: "\<forall>c. c \<notin> set (b # bs) \<longrightarrow> map_of ks' c = map_of ks c"
    using outside other by simp
  have 5: "\<exists>kb sb. deploy_browser e ((b # bs) ! i) [((b # bs) ! i, q)] initial
                      = (Inr ((p # ps) ! i, kb), sb)"
    if "i < length (b # bs)" and "map_of ks ((b # bs) ! i) = Some q" for i q
  proof (cases i)
    case 0
    with that opt have "q = opt" by simp
    with 0 alone show ?thesis by simp
  next
    case (Suc j)
    with that have j: "j < length bs" by simp
    then have "bs ! j \<in> set bs" by simp
    with nb have "bs ! j \<noteq> b" by auto
    with other that Suc have "map_of ks1 (bs ! j) = Some q" by simp
    with inside j Suc show ?thesis by simp
  qed
  show ?case
  proof (intro exI conjI)
    show "deployPromises e (b # bs) ks st = (Inr (p # ps, ks'), st')" by (rule 1)
    show "length (p # ps) = length (b # bs)" by (rule 2)
    show "map fst ks' = map fst ks" by (rule 3)
    show "\<forall>c. c \<notin> set (b # bs) \<longrightarrow> map_of ks' c = map_of ks c" by (rule 4)
    show "\<forall>i opt. i < length (b # bs) \<longrightarrow> map_of ks ((b # bs) ! i) = Some opt \<longrightarrow>
              (\<exists>ks1 st1. deploy_browser e ((b # bs) ! i) [((b # bs) ! i, opt)] initial
                            = (Inr ((p # ps) ! i, ks1), st1))"
      using 5 by blast
  qed
qed

lemma allSettled_outcomes:
  "i < length ps \<Longrightarrow>
   outcome_of (fst (allSettled e ps st) ! i)
     = (case ps ! i of
          Done r \<Rightarrow> outcome_of r
        | Await opt \<Rightarrow> outcome_of (fst (submit_resume e opt st0)))"
proof (induction ps arbitrary: st i)
  case Nil
  then show ?case by simp
next
  case (Cons p ps)
  show ?case
  proof (cases i)
    case 0
    then show ?thesis
      using outcome_submit_resume [of e _ st st0]
      by (cases p) (simp_all add: split_beta)
  next
    case (Suc j)
    with Cons.prems have "j < length ps" by simp
    from Cons.IH [OF this] Suc show ?thesis
      by (cases p) (simp_all add: split_beta)
  qed
qed

lemma failed_report_results:
  "length rs = length bs \<Longrightarrow>
   failed (report_results e rs bs st) \<longleftrightarrow> failed st \<or> (\<exists>r\<in>set rs. outcome_of r = Failed)"
proof (induction rs bs arbitrary: st rule: list_induct2)
  case Nil
  then show ?case by simp
next
  case (Cons r rs b bs)
  then show ?case
    by (cases r) (auto simp add: report_result_def failed_emit done_line_def)
qed

lemma events_report_result_mono: "set (events st) \<subseteq> set (events (report_result e r b st))"
  by (cases r) (auto simp add: report_result_def)

lemma events_report_results_mono:
  "set (events st) \<subseteq> set (events (report_results e rs bs st))"
proof (induction e rs bs st rule: report_results.induct)
  case (1 e r rs b bs st)
  with events_report_result_mono [of st e r b] show ?case by auto
qed simp_all

lemma done_report_results:
  "length rs = length bs \<Longrightarrow> i < length rs \<Longrightarrow> rs ! i = Fulfilled True \<Longrightarrow>
   done_line (bs ! i) \<in> set (events (report_results e rs bs st))"
proof (induction rs bs arbitrary: st i rule: list_induct2)
  case Nil
  then show ?case by simp
next
  case (Cons r rs b bs)
  show ?case
  proof (cases i)
    case 0
    with Cons.prems have "done_line b \<in> set (events (report_result e r b st))"
      by (simp add: report_result_def)
    with events_report_results_mono [of "report_result e r b st" e rs bs] 0
    show ?thesis by auto
  next
    case (Suc j)
    with Cons.prems Cons.IH [of j "report_result e r b st"] show ?thesis by simp
  qed
qed

lemma some_hasBundleFile_Nil_True: "some_hasBundleFile e ks bs = Inr True \<Longrightarrow> bs \<noteq> []"
  by auto

text \<open>
  C2. When the run reaches the dispatch, every candidate store gets a result, one per
  store and in the order of the stores, whatever the results of the others: the outcome
  of each store is the outcome it has when it is dispatched alone. The run is marked
  failed exactly when it was failed before or one of the results is a rejection, and
  every store that has succeeded has its line in the output, also after a rejection.
\<close>

theorem all_settle:
  assumes k: "keysInput e = Inr ks0" and d: "distinct (map fst ks0)" and t: "\<not> nodeEnvTest e"
    and r: "resolve_all e ks0 (setup_state e st0) = (Inr ks1, st3)"
    and h: "some_hasBundleFile e ks1 (browserEntries ks0) = Inr True"
  shows "\<exists>results st5.
           run e st0 = report_results e results (browserEntries ks0) st5 \<and>
           failed st5 = failed st0 \<and>
           length results = length (browserEntries ks0) \<and>
           (\<forall>i opt. i < length results \<longrightarrow>
              map_of (apply_notes (edgeNotes_input e) ks1) (browserEntries ks0 ! i) = Some opt \<longrightarrow>
              outcome_of (results ! i) = outcome_of (submit_alone e (browserEntries ks0 ! i) opt)) \<and>
           (failed (run e st0) \<longleftrightarrow>
              failed st0 \<or> (\<exists>i<length results. outcome_of (results ! i) = Failed)) \<and>
           (\<forall>i<length results. outcome_of (results ! i) = Succeeded \<longrightarrow>
              done_line (browserEntries ks0 ! i) \<in> set (events (run e st0)))"
proof -
  let ?bs = "browserEntries ks0"
  let ?ks2 = "apply_notes (edgeNotes_input e) ks1"
  have keys2: "map fst ?ks2 = map fst ks0"
    using r resolve_loop_keys unfolding resolve_all_def by (simp add: resolve_loop_keys)
  have dist: "distinct ?bs"
    using d by (rule distinct_browserEntries)
  have sub: "set ?bs \<subseteq> fst ` set ?ks2"
    using browserEntries_subset [of ks0] keys2 by (metis list.set_map)
  from deployPromises_spec [OF dist sub, of e st3] obtain ps ks3 st4 where
    dp: "deployPromises e ?bs ?ks2 st3 = (Inr (ps, ks3), st4)"
    and len: "length ps = length ?bs"
    and alone: "\<forall>i opt. i < length ?bs \<longrightarrow> map_of ?ks2 (?bs ! i) = Some opt \<longrightarrow>
              (\<exists>ka sa. deploy_browser e (?bs ! i) [(?bs ! i, opt)] initial
                          = (Inr (ps ! i, ka), sa))"
    by blast
  define results where "results = fst (allSettled e ps st4)"
  define st5 where "st5 = snd (allSettled e ps st4)"
  have as: "allSettled e ps st4 = (results, st5)"
    by (simp add: results_def st5_def)
  have ne: "?bs \<noteq> []"
    using h by (rule some_hasBundleFile_Nil_True)
  have 1: "run e st0 = report_results e results ?bs st5"
    using k ne r h t dp as by (simp add: run_def run_try_def)
  have "failed (snd (resolve_all e ks0 (setup_state e st0))) = failed st0"
    by (simp add: resolve_all_def)
  then have f3: "failed st3 = failed st0"
    by (simp add: r)
  have "failed (snd (deployPromises e ?bs ?ks2 st3)) = failed st3"
    by simp
  then have f4: "failed st4 = failed st3"
    by (simp add: dp)
  have 2: "failed st5 = failed st0"
    using f3 f4 by (simp add: st5_def)
  have 3: "length results = length ?bs"
    using len by (simp add: results_def)
  have 4: "outcome_of (results ! i) = outcome_of (submit_alone e (?bs ! i) opt)"
    if "i < length results" and "map_of ?ks2 (?bs ! i) = Some opt" for i opt
  proof -
    from that 3 have "i < length ?bs" by simp
    with alone that(2) obtain ka sa where
      a: "deploy_browser e (?bs ! i) [(?bs ! i, opt)] initial = (Inr (ps ! i, ka), sa)"
      by blast
    from that 3 len have "i < length ps" by simp
    from allSettled_outcomes [OF this, of e st4 sa]
    have "outcome_of (results ! i)
            = (case ps ! i of Done r \<Rightarrow> outcome_of r
               | Await o' \<Rightarrow> outcome_of (fst (submit_resume e o' sa)))"
      by (simp add: results_def)
    also have "\<dots> = outcome_of (submit_alone e (?bs ! i) opt)"
      using a by (cases "ps ! i") (simp_all add: submit_alone_def)
    finally show ?thesis .
  qed
  have 5: "failed (run e st0) \<longleftrightarrow>
             failed st0 \<or> (\<exists>i<length results. outcome_of (results ! i) = Failed)"
  proof -
    have "(\<exists>r\<in>set results. outcome_of r = Failed)
            \<longleftrightarrow> (\<exists>i<length results. outcome_of (results ! i) = Failed)"
      by (metis in_set_conv_nth)
    with failed_report_results [OF 3, of e st5] 1 2 show ?thesis
      by simp
  qed
  have 6: "done_line (?bs ! i) \<in> set (events (run e st0))"
    if "i < length results" and "outcome_of (results ! i) = Succeeded" for i
  proof -
    from that(2) have "results ! i = Fulfilled True"
      by (cases "results ! i") (auto split: if_splits)
    from done_report_results [OF 3 that(1) this, of e st5] 1 show ?thesis by simp
  qed
  show ?thesis
  proof (intro exI conjI)
    show "run e st0 = report_results e results ?bs st5" by (rule 1)
    show "failed st5 = failed st0" by (rule 2)
    show "length results = length ?bs" by (rule 3)
    show "\<forall>i opt. i < length results \<longrightarrow> map_of ?ks2 (?bs ! i) = Some opt \<longrightarrow>
            outcome_of (results ! i) = outcome_of (submit_alone e (?bs ! i) opt)"
      using 4 by blast
    show "failed (run e st0) \<longleftrightarrow>
            failed st0 \<or> (\<exists>i<length results. outcome_of (results ! i) = Failed)"
      by (rule 5)
    show "\<forall>i<length results. outcome_of (results ! i) = Succeeded \<longrightarrow>
            done_line (?bs ! i) \<in> set (events (run e st0))"
      using 6 by blast
  qed
qed

lemma settle_names: "Firefox \<noteq> Edge" "Firefox \<noteq> Itero" "Edge \<noteq> Itero" "Firefox \<noteq> Chrome"
  "Edge \<noteq> Chrome" "Itero \<noteq> Chrome"
  by (simp_all add: Chrome_def Firefox_def Edge_def Itero_def js_Cons js_Nil)

lemma settle_entries: "browserEntries keys_settle = [Firefox, Edge, Itero]"
  using settle_names
  by (simp add: browserEntries_def keys_settle_def supportedBrowserSet_def)

lemma settle_resolve:
  "resolve_all env_settle keys_settle (setup_state env_settle initial)
     = (Inr keys_settle, setup_state env_settle initial)"
  unfolding resolve_all_def settle_entries using settle_names settle_names [symmetric]
  by (simp add: resolve_browser_def keys_settle_def env_settle_def env0_def Let_def
      artifact_input_def verbose_input_def versionFile_input_def or_input_def
      getBundleFiles_def or_str_def str_val_def no_options_def js_Cons)

lemma settle_has:
  "some_hasBundleFile env_settle keys_settle (browserEntries keys_settle) = Inr True"
  unfolding settle_entries
  by (simp add: keys_settle_def hasBundleFile_def getBundleFiles_def or_str_def str_val_def
      no_options_def js_Cons)

lemma settle_notes: "apply_notes (edgeNotes_input env_settle) keys_settle = keys_settle"
  by (simp add: apply_notes_def edgeNotes_input_def or_input_def env_settle_def env0_def
      split: option.splits)

lemma settle_alone:
  "submit_alone env_settle Firefox (no_options\<lparr>zip' := Some (js ''a.zip'')\<rparr>) = Fulfilled True"
  "submit_alone env_settle Edge (no_options\<lparr>zip' := Some (js ''a.zip'')\<rparr>) = Rejected boom"
  "submit_alone env_settle Itero (no_options\<lparr>zip' := Some (js ''a.zip'')\<rparr>) = Fulfilled True"
  using settle_names settle_names [symmetric]
  by (simp_all add: submit_alone_def deploy_browser_def hasBundleFile_def getBundleFiles_def
      or_str_def str_val_def no_options_def env_settle_def env0_def Let_def js_Cons)

theorem all_settle_witness:
  "\<not> failed initial \<and>
   failed (run env_settle initial) \<and>
   done_line Firefox \<in> set (events (run env_settle initial)) \<and>
   done_line Itero \<in> set (events (run env_settle initial))"
proof -
  have k: "keysInput env_settle = Inr keys_settle"
    by (simp add: env_settle_def env0_def)
  have d: "distinct (map fst keys_settle)"
    using settle_names by (simp add: keys_settle_def)
  have t: "\<not> nodeEnvTest env_settle"
    by (simp add: env_settle_def env0_def)
  have i: "\<not> failed initial"
    by (simp add: failed_def initial_def)
  have m: "map_of keys_settle Firefox = Some (no_options\<lparr>zip' := Some (js ''a.zip'')\<rparr>)"
    "map_of keys_settle Edge = Some (no_options\<lparr>zip' := Some (js ''a.zip'')\<rparr>)"
    "map_of keys_settle Itero = Some (no_options\<lparr>zip' := Some (js ''a.zip'')\<rparr>)"
    using settle_names settle_names [symmetric] by (simp_all add: keys_settle_def)
  note th = all_settle [OF k d t settle_resolve settle_has, unfolded settle_entries settle_notes]
  from th obtain results st5 where
    "run env_settle initial = report_results env_settle results [Firefox, Edge, Itero] st5"
    and "failed st5 = failed initial"
    and len0: "length results = length [Firefox, Edge, Itero]"
    and out: "\<forall>i opt. i < length results \<longrightarrow>
              map_of keys_settle ([Firefox, Edge, Itero] ! i) = Some opt \<longrightarrow>
              outcome_of (results ! i)
                = outcome_of (submit_alone env_settle ([Firefox, Edge, Itero] ! i) opt)"
    and f: "failed (run env_settle initial) \<longleftrightarrow>
              failed initial \<or> (\<exists>i<length results. outcome_of (results ! i) = Failed)"
    and dn: "\<forall>i<length results. outcome_of (results ! i) = Succeeded \<longrightarrow>
              done_line ([Firefox, Edge, Itero] ! i) \<in> set (events (run env_settle initial))"
    by blast
  from len0 have len: "length results = 3" by simp
  from out [rule_format, of 0] len m(1) settle_alone(1)
  have o0: "outcome_of (results ! 0) = Succeeded" by simp
  from out [rule_format, of 1] len m(2) settle_alone(2)
  have o1: "outcome_of (results ! 1) = Failed" by simp
  from out [rule_format, of 2] len m(3) settle_alone(3)
  have o2: "outcome_of (results ! 2) = Succeeded" by simp
  from f o1 len have 1: "failed (run env_settle initial)"
    by auto
  from dn [rule_format, of 0] o0 len
  have 2: "done_line Firefox \<in> set (events (run env_settle initial))" by simp
  from dn [rule_format, of 2] o2 len
  have 3: "done_line Itero \<in> set (events (run env_settle initial))" by simp
  from i 1 2 3 show ?thesis by simp
qed

end
